theory Spec2Isabelle
  imports Main
begin

section \<open>Platform values: strings, exceptions, JSON data\<close>

text \<open>
  The page \<^verbatim>\<open>src/pages/index.tsx\<close> runs in a browser. A JavaScript string is a
  sequence of 16-bit code units. The text typed into the input fields, the access
  token of a session and the output of \<^verbatim>\<open>atob\<close> are modelled as \<^typ>\<open>string\<close>, that is
  with the code units below 256: \<^verbatim>\<open>atob\<close> returns no other, and it rejects a text that
  holds another. The strings inside a parsed JSON document can hold any 16-bit code
  unit (through a \<^verbatim>\<open>\uXXXX\<close> escape), so they are lists of code units.
\<close>

type_synonym jsstring = "nat list"

definition js :: "string \<Rightarrow> jsstring" where
  "js s = map of_char s"

text \<open>
  What a \<^verbatim>\<open>throw\<close> carries: the DOMException of \<^verbatim>\<open>atob\<close>, the SyntaxError of
  \<^verbatim>\<open>JSON.parse\<close>, the TypeError of a member access on \<^verbatim>\<open>null\<close>.
\<close>

datatype exn = InvalidCharacterError | SyntaxError | TypeError

text \<open>
  The values \<^verbatim>\<open>JSON.parse\<close> returns. A number keeps its lexeme (nothing in the page
  computes with it). An object keeps its members in source order, duplicates included;
  reading a property takes the last one.
\<close>

datatype json =
    JNull
  | JBool bool
  | JNumber string
  | JString jsstring
  | JArray "json list"
  | JObject "(jsstring \<times> json) list"

section \<open>\<^verbatim>\<open>String.prototype.split\<close> with a one-character separator\<close>

text \<open>
  \<^verbatim>\<open>"".split(".")\<close> is \<^verbatim>\<open>[""]\<close>, \<^verbatim>\<open>"a.b".split(".")\<close> is \<^verbatim>\<open>["a","b"]\<close>,
  \<^verbatim>\<open>".".split(".")\<close> is \<^verbatim>\<open>["",""]\<close>: the result is never empty.
\<close>

text \<open>The segment being read is carried along; a separator closes it.\<close>

fun split_from :: "char \<Rightarrow> string \<Rightarrow> string \<Rightarrow> string list" where
  "split_from sep seg [] = [seg]"
| "split_from sep seg (c # cs) =
     (if c = sep then seg # split_from sep [] cs
      else split_from sep (seg @ [c]) cs)"

definition string_split :: "char \<Rightarrow> string \<Rightarrow> string list" where
  "string_split sep s = split_from sep [] s"

section \<open>\<^verbatim>\<open>atob\<close>: the forgiving base64 decoder\<close>

text \<open>
  \<^verbatim>\<open>atob(data)\<close> follows the forgiving-base64 decode of the WHATWG Infra standard:
  ASCII whitespace is removed; when the length is a multiple of four, one or two
  trailing \<^verbatim>\<open>=\<close> are removed; a length of remainder one modulo four fails; any
  character outside \<^verbatim>\<open>A-Z a-z 0-9 + /\<close> fails; every character gives six bits; a
  group of four gives three bytes, a final group of three gives two bytes, a final
  group of two gives one byte (the bits left over are dropped). On failure it throws
  an InvalidCharacterError.
\<close>

definition is_ascii_whitespace :: "char \<Rightarrow> bool" where
  "is_ascii_whitespace c = (of_char c \<in> {9, 10, 12, 13, 32 :: nat})"

definition base64_value :: "char \<Rightarrow> nat option" where
  "base64_value c =
     (let n = (of_char c :: nat) in
      if 65 \<le> n \<and> n \<le> 90 then Some (n - 65)
      else if 97 \<le> n \<and> n \<le> 122 then Some (n - 71)
      else if 48 \<le> n \<and> n \<le> 57 then Some (n + 4)
      else if n = 43 then Some 62
      else if n = 47 then Some 63
      else None)"

definition strip_padding :: "string \<Rightarrow> string" where
  "strip_padding s =
     (if length s mod 4 = 0 \<and> s \<noteq> [] \<and> last s = CHR ''=''
      then (if butlast s \<noteq> [] \<and> last (butlast s) = CHR ''=''
            then butlast (butlast s) else butlast s)
      else s)"

fun sextets_to_bytes :: "nat list \<Rightarrow> nat list" where
  "sextets_to_bytes (a # b # c # d # rest) =
     (let n = ((a * 64 + b) * 64 + c) * 64 + d
      in [n div 65536, n div 256 mod 256, n mod 256] @ sextets_to_bytes rest)"
| "sextets_to_bytes [a, b, c] =
     (let n = ((a * 64 + b) * 64 + c) div 4 in [n div 256, n mod 256])"
| "sextets_to_bytes [a, b] = [(a * 64 + b) div 16]"
| "sextets_to_bytes [a] = []"
| "sextets_to_bytes [] = []"

definition atob :: "string \<Rightarrow> exn + string" where
  "atob data =
     (let s = strip_padding (filter (\<lambda>c. \<not> is_ascii_whitespace c) data) in
      if length s mod 4 = 1 then Inl InvalidCharacterError
      else if list_all (\<lambda>c. base64_value c \<noteq> None) s
      then Inr (map char_of (sextets_to_bytes (map (\<lambda>c. the (base64_value c)) s)))
      else Inl InvalidCharacterError)"

section \<open>\<^verbatim>\<open>JSON.parse\<close>\<close>

text \<open>
  The JSON grammar of ECMA-404, as \<^verbatim>\<open>JSON.parse\<close> reads it: whitespace is tab, line
  feed, carriage return and space; a string has no raw control character and only the
  escapes \<^verbatim>\<open>\" \\ \/ \b \f \n \r \t \uXXXX\<close>; a number is
  \<^verbatim>\<open>-? (0 | [1-9][0-9]*) (.[0-9]+)? ([eE][+-]?[0-9]+)?\<close>; no trailing comma; nothing
  but whitespace after the value. Anything else throws a SyntaxError.
\<close>

definition is_json_whitespace :: "char \<Rightarrow> bool" where
  "is_json_whitespace c = (of_char c \<in> {9, 10, 13, 32 :: nat})"

definition skip_ws :: "string \<Rightarrow> string" where
  "skip_ws s = dropWhile is_json_whitespace s"

definition is_digit :: "char \<Rightarrow> bool" where
  "is_digit c = (48 \<le> (of_char c :: nat) \<and> (of_char c :: nat) \<le> 57)"

definition hex_value :: "char \<Rightarrow> nat option" where
  "hex_value c =
     (let n = (of_char c :: nat) in
      if 48 \<le> n \<and> n \<le> 57 then Some (n - 48)
      else if 65 \<le> n \<and> n \<le> 70 then Some (n - 55)
      else if 97 \<le> n \<and> n \<le> 102 then Some (n - 87)
      else None)"

definition escape_value :: "char \<Rightarrow> nat option" where
  "escape_value c =
     (if c = CHR 0x22 then Some 34
      else if c = CHR 0x5C then Some 92
      else if c = CHR ''/'' then Some 47
      else if c = CHR ''b'' then Some 8
      else if c = CHR ''f'' then Some 12
      else if c = CHR ''n'' then Some 10
      else if c = CHR ''r'' then Some 13
      else if c = CHR ''t'' then Some 9
      else None)"

definition cons_unit :: "nat \<Rightarrow> (jsstring \<times> string) option \<Rightarrow> (jsstring \<times> string) option" where
  "cons_unit u r = (case r of None \<Rightarrow> None | Some (us, rest) \<Rightarrow> Some (u # us, rest))"

text \<open>The characters of a string after its opening quote, up to the closing quote.\<close>

fun parse_chars :: "string \<Rightarrow> (jsstring \<times> string) option" where
  "parse_chars [] = None"
| "parse_chars (c # cs) =
     (if c = CHR 0x22 then Some ([], cs)
      else if c = CHR 0x5C then
        (case cs of
           [] \<Rightarrow> None
         | e # r \<Rightarrow>
             if e = CHR ''u'' then
               (case r of
                  h1 # h2 # h3 # h4 # r' \<Rightarrow>
                    (case (hex_value h1, hex_value h2, hex_value h3, hex_value h4) of
                       (Some a, Some b, Some c, Some d) \<Rightarrow>
                         cons_unit (((a * 16 + b) * 16 + c) * 16 + d) (parse_chars r')
                     | _ \<Rightarrow> None)
                | _ \<Rightarrow> None)
             else
               (case escape_value e of
                  None \<Rightarrow> None
                | Some u \<Rightarrow> cons_unit u (parse_chars r)))
      else if (of_char c :: nat) < 32 then None
      else cons_unit (of_char c) (parse_chars cs))"

text \<open>A number: its lexeme and what follows it.\<close>

definition parse_digits :: "string \<Rightarrow> (string \<times> string) option" where
  "parse_digits s =
     (if takeWhile is_digit s = [] then None
      else Some (takeWhile is_digit s, dropWhile is_digit s))"

definition parse_int :: "string \<Rightarrow> (string \<times> string) option" where
  "parse_int s =
     (case s of
        [] \<Rightarrow> None
      | c # r \<Rightarrow>
          if c = CHR ''0'' then Some ([c], r)
          else if is_digit c then Some (c # takeWhile is_digit r, dropWhile is_digit r)
          else None)"

definition parse_frac :: "string \<Rightarrow> (string \<times> string) option" where
  "parse_frac s =
     (case s of
        [] \<Rightarrow> Some ([], s)
      | c # r \<Rightarrow>
          if c = CHR ''.'' then
            (case parse_digits r of None \<Rightarrow> None | Some (ds, rest) \<Rightarrow> Some (c # ds, rest))
          else Some ([], s))"

definition parse_exp :: "string \<Rightarrow> (string \<times> string) option" where
  "parse_exp s =
     (case s of
        [] \<Rightarrow> Some ([], s)
      | c # r \<Rightarrow>
          if c = CHR ''e'' \<or> c = CHR ''E'' then
            (case r of
               [] \<Rightarrow> None
             | g # r' \<Rightarrow>
                 if g = CHR ''+'' \<or> g = CHR ''-'' then
                   (case parse_digits r' of
                      None \<Rightarrow> None
                    | Some (ds, rest) \<Rightarrow> Some (c # g # ds, rest))
                 else
                   (case parse_digits r of
                      None \<Rightarrow> None
                    | Some (ds, rest) \<Rightarrow> Some (c # ds, rest)))
          else Some ([], s))"

definition parse_number :: "string \<Rightarrow> (string \<times> string) option" where
  "parse_number s =
     (let (sign, s1) = (case s of
                          [] \<Rightarrow> ([], s)
                        | c # r \<Rightarrow> if c = CHR ''-'' then ([c], r) else ([], s))
      in case parse_int s1 of
           None \<Rightarrow> None
         | Some (i, s2) \<Rightarrow>
             (case parse_frac s2 of
                None \<Rightarrow> None
              | Some (f, s3) \<Rightarrow>
                  (case parse_exp s3 of
                     None \<Rightarrow> None
                   | Some (e, s4) \<Rightarrow> Some (sign @ i @ f @ e, s4))))"

definition parse_literal :: "string \<Rightarrow> json \<Rightarrow> string \<Rightarrow> (json \<times> string) option" where
  "parse_literal word v s =
     (if take (length word) s = word then Some (v, drop (length word) s) else None)"

text \<open>
  A value, the elements of an array after its opening bracket, and the members of an
  object after its opening brace. Each returns what it read and the rest of the text.
  The tests \<open>length r < length s\<close> before the recursive calls on a rest say that the
  rest is shorter than the text it was cut from; they always hold
  (\<open>parse_elements_plain\<close> and \<open>parse_members_plain\<close> below give the equations
  without them) and only serve the termination proof.
\<close>

function parse_value :: "string \<Rightarrow> (json \<times> string) option"
  and parse_elements :: "string \<Rightarrow> (json list \<times> string) option"
  and parse_members :: "string \<Rightarrow> ((jsstring \<times> json) list \<times> string) option"
where
  "parse_value s =
     (case skip_ws s of
        [] \<Rightarrow> None
      | c # r \<Rightarrow>
          if c = CHR ''{'' then
            (case skip_ws r of
               [] \<Rightarrow> None
             | c' # r' \<Rightarrow>
                 if c' = CHR ''}'' then Some (JObject [], r')
                 else (case parse_members r of
                         None \<Rightarrow> None
                       | Some (ms, rest) \<Rightarrow> Some (JObject ms, rest)))
          else if c = CHR ''['' then
            (case skip_ws r of
               [] \<Rightarrow> None
             | c' # r' \<Rightarrow>
                 if c' = CHR '']'' then Some (JArray [], r')
                 else (case parse_elements r of
                         None \<Rightarrow> None
                       | Some (vs, rest) \<Rightarrow> Some (JArray vs, rest)))
          else if c = CHR 0x22 then
            (case parse_chars r of
               None \<Rightarrow> None
             | Some (us, rest) \<Rightarrow> Some (JString us, rest))
          else if c = CHR ''n'' then parse_literal ''null'' JNull (c # r)
          else if c = CHR ''t'' then parse_literal ''true'' (JBool True) (c # r)
          else if c = CHR ''f'' then parse_literal ''false'' (JBool False) (c # r)
          else (case parse_number (c # r) of
                  None \<Rightarrow> None
                | Some (lexeme, rest) \<Rightarrow> Some (JNumber lexeme, rest)))"
| "parse_elements s =
     (case parse_value s of
        None \<Rightarrow> None
      | Some (v, rest) \<Rightarrow>
          (case skip_ws rest of
             [] \<Rightarrow> None
           | c # r \<Rightarrow>
               if c = CHR '']'' then Some ([v], r)
               else if c = CHR '','' \<and> length r < length s then
                 (case parse_elements r of
                    None \<Rightarrow> None
                  | Some (vs, rest') \<Rightarrow> Some (v # vs, rest'))
               else None))"
| "parse_members s =
     (case skip_ws s of
        [] \<Rightarrow> None
      | q # r \<Rightarrow>
          if q = CHR 0x22 then
            (case parse_chars r of
               None \<Rightarrow> None
             | Some (k, rest) \<Rightarrow>
                 (case skip_ws rest of
                    [] \<Rightarrow> None
                  | c # r1 \<Rightarrow>
                      if c = CHR '':'' \<and> length r1 < length s then
                        (case parse_value r1 of
                           None \<Rightarrow> None
                         | Some (v, rest1) \<Rightarrow>
                             (case skip_ws rest1 of
                                [] \<Rightarrow> None
                              | c' # r2 \<Rightarrow>
                                  if c' = CHR ''}'' then Some ([(k, v)], r2)
                                  else if c' = CHR '','' \<and> length r2 < length s then
                                    (case parse_members r2 of
                                       None \<Rightarrow> None
                                     | Some (ms, rest2) \<Rightarrow> Some ((k, v) # ms, rest2))
                                  else None))
                      else None))
          else None)"
  by pat_completeness auto

termination
proof (relation "measure (\<lambda>x. case x of Inl s \<Rightarrow> 2 * length s
                                 | Inr (Inl s) \<Rightarrow> 2 * length s + 1
                                 | Inr (Inr s) \<Rightarrow> 2 * length s + 1)", goal_cases)
  case (2 s c r)
  have "length (skip_ws s) \<le> length s"
    by (simp add: skip_ws_def length_dropWhile_le)
  with 2 show ?case by simp
next
  case (3 s c r)
  have "length (skip_ws s) \<le> length s"
    by (simp add: skip_ws_def length_dropWhile_le)
  with 3 show ?case by simp
qed simp_all

declare parse_value.simps [simp del] parse_elements.simps [simp del]
  parse_members.simps [simp del]

definition JSON_parse :: "string \<Rightarrow> exn + json" where
  "JSON_parse text =
     (case parse_value text of
        None \<Rightarrow> Inl SyntaxError
      | Some (v, rest) \<Rightarrow> if skip_ws rest = [] then Inr v else Inl SyntaxError)"



section \<open>The key guard: \<^verbatim>\<open>checkForServiceRole\<close>\<close>

text \<open>
  \<^verbatim>\<open>data.role\<close> on a value returned by \<^verbatim>\<open>JSON.parse\<close>: on \<^verbatim>\<open>null\<close> the member access
  throws a TypeError; on an object it is the value of the own property \<^verbatim>\<open>role\<close> (the
  last member of that name) or \<^verbatim>\<open>undefined\<close>; a boolean, a number, a string and an
  array have no property of that name. \<^verbatim>\<open>undefined\<close> is \<^const>\<open>None\<close>.
\<close>

fun member_role :: "json \<Rightarrow> exn + json option" where
  "member_role JNull = Inl TypeError"
| "member_role (JObject members) = Inr (map_of (rev members) (js ''role''))"
| "member_role (JBool b) = Inr None"
| "member_role (JNumber n) = Inr None"
| "member_role (JString s) = Inr None"
| "member_role (JArray vs) = Inr None"

text \<open>\<^verbatim>\<open>v === "literal"\<close>: the value is a string with the same code units.\<close>

definition strict_equals :: "json option \<Rightarrow> string \<Rightarrow> bool" where
  "strict_equals v literal = (v = Some (JString (js literal)))"

text \<open>\<^verbatim>\<open>try { body } catch (err) { handler }\<close>.\<close>

definition try_catch :: "exn + 'a \<Rightarrow> (exn \<Rightarrow> exn + 'a) \<Rightarrow> exn + 'a" where
  "try_catch body handler = (case body of Inl err \<Rightarrow> handler err | Inr v \<Rightarrow> Inr v)"

text \<open>
  Lines 143 to 156. The result is \<open>Inr b\<close> when the function returns \<open>b\<close> and \<open>Inl e\<close>
  when \<open>e\<close> escapes from it.
\<close>

definition checkForServiceRole :: "string \<Rightarrow> exn + bool" where
  "checkForServiceRole jwt =
     (let split = string_split CHR ''.'' jwt in
      if length split \<noteq> 3 then Inr False
      else
        try_catch
          (let payload = split ! 1 in
           case atob payload of
             Inl err \<Rightarrow> Inl err
           | Inr json \<Rightarrow>
               (case JSON_parse json of
                  Inl err \<Rightarrow> Inl err
                | Inr data \<Rightarrow>
                    (case member_role data of
                       Inl err \<Rightarrow> Inl err
                     | Inr role \<Rightarrow> Inr (strict_equals role ''service_role''))))
          (\<lambda>err. Inr False))"

section \<open>The page component \<^verbatim>\<open>Home\<close>\<close>

definition URL_STORAGE_KEY :: string where
  "URL_STORAGE_KEY = ''SB_URL''"

definition KEY_STORAGE_KEY :: string where
  "KEY_STORAGE_KEY = ''SB_KEY''"

text \<open>
  \<^verbatim>\<open>localStorage\<close> is the list of the \<^verbatim>\<open>setItem\<close> calls made on it, the latest first:
  \<^verbatim>\<open>getItem\<close> reads the latest value written under a name, \<^verbatim>\<open>null\<close> (\<^const>\<open>None\<close>) when
  there is none.
\<close>

type_synonym storage = "(string \<times> string) list"

definition setItem :: "string \<Rightarrow> string \<Rightarrow> storage \<Rightarrow> storage" where
  "setItem k v st = (k, v) # st"

definition getItem :: "storage \<Rightarrow> string \<Rightarrow> string option" where
  "getItem st k = map_of st k"

text \<open>
  \<^verbatim>\<open>getCachedItem\<close>, lines 161 to 169: \<^verbatim>\<open>undefined\<close> on the server (no \<^verbatim>\<open>window\<close>) and
  when \<^verbatim>\<open>localStorage.getItem\<close> gives \<^verbatim>\<open>null\<close>.
\<close>

definition getCachedItem :: "bool \<Rightarrow> storage \<Rightarrow> string \<Rightarrow> string option" where
  "getCachedItem window_defined st k =
     (if \<not> window_defined then None else getItem st k)"

text \<open>The two fields of a \<^verbatim>\<open>Session\<close> that the page reads.\<close>

record Session =
  access_token :: string
  user_email :: "string option"

text \<open>
  The four \<^verbatim>\<open>useState\<close> cells of \<^verbatim>\<open>Home\<close> (lines 172 to 179), and the two parts of the
  browser its handlers write: \<^verbatim>\<open>localStorage\<close> and the \<^verbatim>\<open>alert\<close> boxes shown so far.
\<close>

record home =
  session :: "Session option"
  error :: "string option"
  url :: "string option"
  key :: "string option"
  localStorage :: storage
  alerts :: "string list"

definition Home_initial :: "bool \<Rightarrow> storage \<Rightarrow> home" where
  "Home_initial window_defined st =
     \<lparr> session = None,
       error = None,
       url = getCachedItem window_defined st URL_STORAGE_KEY,
       key = getCachedItem window_defined st KEY_STORAGE_KEY,
       localStorage = st,
       alerts = [] \<rparr>"

definition service_role_warning :: string where
  "service_role_warning =
     ''This is your service_role key - do not share this willy nilly. We only need your anon key. Input rejected''"

text \<open>\<^verbatim>\<open>updateKey\<close>, lines 215 to 226.\<close>

definition updateKey :: "string \<Rightarrow> home \<Rightarrow> exn + home" where
  "updateKey k h =
     (case checkForServiceRole k of
        Inl err \<Rightarrow> Inl err
      | Inr isServiceRole \<Rightarrow>
          if isServiceRole then
            Inr (h\<lparr> alerts := alerts h @ [service_role_warning], key := Some [] \<rparr>)
          else
            Inr (h\<lparr> key := Some k,
                     localStorage := setItem KEY_STORAGE_KEY k (localStorage h) \<rparr>))"

text \<open>\<^verbatim>\<open>updateUrl\<close>, lines 228 to 231.\<close>

definition updateUrl :: "string \<Rightarrow> home \<Rightarrow> home" where
  "updateUrl u h =
     h\<lparr> url := Some u, localStorage := setItem URL_STORAGE_KEY u (localStorage h) \<rparr>"

text \<open>
  What the user does to the two input fields (their \<^verbatim>\<open>onChange\<close> handlers, lines 291
  and 305), one change after the other. A handler that throws ends the run.
\<close>

datatype user_input = KeyInput string | UrlInput string

fun onChange :: "user_input \<Rightarrow> home \<Rightarrow> exn + home" where
  "onChange (KeyInput k) h = updateKey k h"
| "onChange (UrlInput u) h = Inr (updateUrl u h)"

fun onChanges :: "user_input list \<Rightarrow> home \<Rightarrow> exn + home" where
  "onChanges [] h = Inr h"
| "onChanges (i # rest) h =
     (case onChange i h of Inl err \<Rightarrow> Inl err | Inr h' \<Rightarrow> onChanges rest h')"

text \<open>A field holds a key that the guard classifies as the service role.\<close>

definition holds_service_role :: "string option \<Rightarrow> bool" where
  "holds_service_role v =
     (case v of None \<Rightarrow> False | Some s \<Rightarrow> checkForServiceRole s = Inr True)"

text \<open>
  The \<^verbatim>\<open>useMemo\<close> callback of lines 181 to 193. \<^verbatim>\<open>!key\<close> holds of \<^verbatim>\<open>undefined\<close> and of
  the empty string. \<^verbatim>\<open>createClient\<close> belongs to the client library: it is a parameter,
  giving \<open>Inr client\<close> or \<open>Inl m\<close> when it throws an error whose \<^verbatim>\<open>message\<close> is \<open>m\<close>.
  The result is the memoised value (\<^const>\<open>None\<close> for \<^verbatim>\<open>undefined\<close>) and the state after
  the \<^verbatim>\<open>setError\<close> call.
\<close>

definition falsy :: "string option \<Rightarrow> bool" where
  "falsy v = (v = None \<or> v = Some [])"

definition supabase ::
  "(string \<Rightarrow> string \<Rightarrow> string option + 'c) \<Rightarrow> home \<Rightarrow> 'c option \<times> home" where
  "supabase createClient h =
     (if falsy (key h) \<or> falsy (url h) then
        (None, h\<lparr> error := Some ''A valid Supabase Key and URL are required'' \<rparr>)
      else
        (case createClient (the (url h)) (the (key h)) of
           Inr client \<Rightarrow> (Some client, h\<lparr> error := None \<rparr>)
         | Inl m \<Rightarrow> (None, h\<lparr> error := m \<rparr>)))"

text \<open>
  The callback given to \<^verbatim>\<open>onAuthStateChange\<close>, lines 200 to 208: the event kind is
  a string, the session is \<^verbatim>\<open>null\<close> (\<^const>\<open>None\<close>) or a \<^verbatim>\<open>Session\<close>.
\<close>

definition authStateChange :: "string \<Rightarrow> Session option \<Rightarrow> home \<Rightarrow> home" where
  "authStateChange event s h =
     (let h1 = (if s \<noteq> None \<and> (event = ''SIGNED_IN'' \<or> event = ''TOKEN_REFRESHED'')
                then h\<lparr> session := s \<rparr> else h)
      in if event = ''SIGNED_OUT'' then h1\<lparr> session := None \<rparr> else h1)"

text \<open>The events of a subscription, delivered in order.\<close>

fun authStateChanges :: "(string \<times> Session option) list \<Rightarrow> home \<Rightarrow> home" where
  "authStateChanges [] h = h"
| "authStateChanges ((event, s) # es) h = authStateChanges es (authStateChange event s h)"



section \<open>The session display: \<^verbatim>\<open>SessionPanel\<close>\<close>

text \<open>
  \<^verbatim>\<open>xs[i]\<close> is \<^verbatim>\<open>undefined\<close> out of range, and \<^verbatim>\<open>atob\<close> converts its argument to a
  string first: \<^verbatim>\<open>atob(undefined)\<close> decodes the text \<^verbatim>\<open>undefined\<close>.
\<close>

definition index :: "'a list \<Rightarrow> nat \<Rightarrow> 'a option" where
  "index xs i = (if i < length xs then Some (xs ! i) else None)"

definition ToString :: "string option \<Rightarrow> string" where
  "ToString v = (case v of None \<Rightarrow> ''undefined'' | Some s \<Rightarrow> s)"

text \<open>
  The expression \<^verbatim>\<open>JSON.parse(atob(session.access_token.split(".")[1]))\<close> of line 133,
  which the specification calls \<^verbatim>\<open>decodeClaims\<close>.
\<close>

definition decodeClaims :: "string \<Rightarrow> exn + json" where
  "decodeClaims token =
     (case atob (ToString (index (string_split CHR ''.'' token) 1)) of
        Inl err \<Rightarrow> Inl err
      | Inr json \<Rightarrow> JSON_parse json)"

text \<open>
  What \<^verbatim>\<open>SessionPanel\<close> (lines 97 to 141) shows: the e-mail address, the access token,
  and the text that \<^verbatim>\<open>JSON.stringify(..., null, 2)\<close> prints for the decoded claims.
  \<^verbatim>\<open>JSON.stringify\<close> is platform code and is the parameter \<open>stringify\<close>: from the
  document that \<^verbatim>\<open>JSON.parse\<close> read to the text printed for the value made of it (a
  number by its value, an object with one property for each name). It does not throw
  on such a value. The component has no \<^verbatim>\<open>try\<close>: what the claims expression throws
  leaves the render function.
\<close>

record session_panel =
  signed_in_as :: "string option"
  token_shown :: string
  jwt_data_shown :: string

definition SessionPanel :: "(json \<Rightarrow> string) \<Rightarrow> Session \<Rightarrow> exn + session_panel" where
  "SessionPanel stringify s =
     (case decodeClaims (access_token s) of
        Inl err \<Rightarrow> Inl err
      | Inr data \<Rightarrow>
          Inr \<lparr> signed_in_as = user_email s, token_shown = access_token s,
                jwt_data_shown = stringify data \<rparr>)"

text \<open>
  The part of the tree returned by \<^verbatim>\<open>Home\<close> (lines 233 to 341) that depends on the
  state: the two input fields when there is no session, the error line, and the panel
  \<^verbatim>\<open>supabase && (session ? SessionPanel : AuthPanel)\<close>. No component of the page is an
  error boundary, so an exception thrown while a panel renders fails the whole render.
\<close>

datatype panel = AuthPanel | SessionPanelOf session_panel

record page =
  inputs_shown :: bool
  error_shown :: "string option"
  panel_shown :: "panel option"

definition Home_render :: "(json \<Rightarrow> string) \<Rightarrow> 'c option \<Rightarrow> home \<Rightarrow> exn + page" where
  "Home_render stringify client h =
     (case (if client = None then Inr None
            else (case session h of
                    None \<Rightarrow> Inr (Some AuthPanel)
                  | Some s \<Rightarrow>
                      (case SessionPanel stringify s of
                         Inl err \<Rightarrow> Inl err
                       | Inr v \<Rightarrow> Inr (Some (SessionPanelOf v))))) of
        Inl err \<Rightarrow> Inl err
      | Inr p \<Rightarrow>
          Inr \<lparr> inputs_shown = (session h = None),
                error_shown = (if falsy (error h) then None else error h),
                panel_shown = p \<rparr>)"

section \<open>The subscription effect\<close>

text \<open>
  The \<^verbatim>\<open>useEffect\<close> of lines 195 to 213 runs inside two libraries. The auth client keeps
  the callbacks registered with \<^verbatim>\<open>onAuthStateChange\<close>; \<^verbatim>\<open>unsubscribe\<close> removes one; an
  event of a client is delivered to the callbacks registered with that client at that
  moment. React runs an effect after a commit whose dependencies differ from those of
  the effect's last run, and runs the cleanup returned by the last run before that and
  when the component is unmounted. When a component throws while it renders and no
  error boundary catches it, React unmounts the tree, so the page is gone and the
  cleanup runs.

  A client object is known by its identity, a subscription by the number it got. The
  trace records what happened, in order.
\<close>

type_synonym client = nat

datatype action =
    Subscribe nat client
  | Unsubscribe nat
  | Deliver nat string

record lifecycle =
  state :: home
  mounted :: bool
  last_deps :: "client option option"
  cleanup :: "nat option"
  listeners :: "(nat \<times> client) list"
  next_subscription :: nat
  trace :: "action list"

definition mount :: "home \<Rightarrow> lifecycle" where
  "mount h =
     \<lparr> state = h, mounted = True, last_deps = None, cleanup = None,
       listeners = [], next_subscription = 0, trace = [] \<rparr>"

text \<open>\<^verbatim>\<open>client.auth.onAuthStateChange(callback)\<close>: the new subscription and the state after.\<close>

definition onAuthStateChange :: "client \<Rightarrow> lifecycle \<Rightarrow> nat \<times> lifecycle" where
  "onAuthStateChange c l =
     (next_subscription l,
      l\<lparr> listeners := listeners l @ [(next_subscription l, c)],
         next_subscription := Suc (next_subscription l),
         trace := trace l @ [Subscribe (next_subscription l) c] \<rparr>)"

text \<open>\<^verbatim>\<open>subscription.unsubscribe()\<close>.\<close>

definition unsubscribe :: "nat \<Rightarrow> lifecycle \<Rightarrow> lifecycle" where
  "unsubscribe i l =
     l\<lparr> listeners := filter (\<lambda>(j, c). j \<noteq> i) (listeners l),
        trace := trace l @ [Unsubscribe i] \<rparr>"

text \<open>
  The effect body, lines 196 to 212: nothing without a client; otherwise it subscribes
  and returns the cleanup that cancels this subscription (here: the subscription).
\<close>

definition effect :: "client option \<Rightarrow> lifecycle \<Rightarrow> nat option \<times> lifecycle" where
  "effect client l =
     (case client of
        None \<Rightarrow> (None, l)
      | Some c \<Rightarrow> (let (subscription, l') = onAuthStateChange c l in (Some subscription, l')))"

definition run_cleanup :: "lifecycle \<Rightarrow> lifecycle" where
  "run_cleanup l =
     (case cleanup l of
        None \<Rightarrow> l
      | Some subscription \<Rightarrow> (unsubscribe subscription l)\<lparr> cleanup := None \<rparr>)"

definition unmount :: "lifecycle \<Rightarrow> lifecycle" where
  "unmount l = (if mounted l then (run_cleanup l)\<lparr> mounted := False \<rparr> else l)"

text \<open>
  A render of \<^verbatim>\<open>Home\<close> in which \<^verbatim>\<open>useMemo\<close> gives \<open>client\<close> (the first render, or a
  render after the credentials changed), and the commit that follows. If the page
  throws while it renders, the tree is unmounted. Otherwise the effect's dependencies
  \<^verbatim>\<open>[supabase, supabase?.auth]\<close> are those of its last run and nothing happens, or they
  differ: then the cleanup of the last run is run, and after it the effect.
\<close>

definition render :: "(json \<Rightarrow> string) \<Rightarrow> client option \<Rightarrow> lifecycle \<Rightarrow> lifecycle" where
  "render stringify client l =
     (if \<not> mounted l then l
      else (case Home_render stringify client (state l) of
              Inl err \<Rightarrow> unmount l
            | Inr p \<Rightarrow>
                if last_deps l = Some client then l
                else (let (c, l') = effect client (run_cleanup l)
                      in l'\<lparr> cleanup := c, last_deps := Some client \<rparr>)))"

text \<open>
  After \<^verbatim>\<open>setSession\<close> changed the state, \<^verbatim>\<open>Home\<close> renders again; the credentials are
  the same, so \<^verbatim>\<open>useMemo\<close> gives the client of the last render.
\<close>

definition rerender :: "(json \<Rightarrow> string) \<Rightarrow> lifecycle \<Rightarrow> lifecycle" where
  "rerender stringify l =
     (case last_deps l of None \<Rightarrow> l | Some client \<Rightarrow> render stringify client l)"

text \<open>
  The client \<open>c\<close> emits an event: every subscription registered with \<open>c\<close> gets it, and
  its callback (the one of lines 200 to 208) updates the state.
\<close>

fun deliver :: "string \<Rightarrow> Session option \<Rightarrow> nat list \<Rightarrow> lifecycle \<Rightarrow> lifecycle" where
  "deliver event s [] l = l"
| "deliver event s (i # rest) l =
     deliver event s rest
       (l\<lparr> state := authStateChange event s (state l),
           trace := trace l @ [Deliver i event] \<rparr>)"

definition emit :: "client \<Rightarrow> string \<Rightarrow> Session option \<Rightarrow> lifecycle \<Rightarrow> lifecycle" where
  "emit c event s l =
     deliver event s (map fst (filter (\<lambda>(i, c'). c' = c) (listeners l))) l"

text \<open>
  What happens to the mounted page: it renders with a client, it is unmounted, or a
  client emits an auth event. An event that changed the state is followed by a render.
\<close>

datatype stimulus =
    Render "client option"
  | Unmount
  | Emit client string "Session option"

fun step :: "(json \<Rightarrow> string) \<Rightarrow> stimulus \<Rightarrow> lifecycle \<Rightarrow> lifecycle" where
  "step stringify (Render client) l = render stringify client l"
| "step stringify Unmount l = unmount l"
| "step stringify (Emit c event s) l =
     (let l' = emit c event s l
      in if state l' = state l then l' else rerender stringify l')"

fun run :: "(json \<Rightarrow> string) \<Rightarrow> stimulus list \<Rightarrow> lifecycle \<Rightarrow> lifecycle" where
  "run stringify [] l = l"
| "run stringify (x # xs) l = run stringify xs (step stringify x l)"



text \<open>
  What holds of the subscriptions after every step: the only live subscription is the
  one the stored cleanup will cancel, it belongs to the client of the last effect run,
  and the component is mounted; a live subscription was made; subscription numbers
  are not used twice; a subscription that is no longer live was cancelled; before a subscription is made,
  every earlier one was cancelled; after a subscription is cancelled, nothing is
  delivered to it.
\<close>

definition live :: "lifecycle \<Rightarrow> nat set" where
  "live l = fst ` set (listeners l)"

definition subscription_invariant :: "lifecycle \<Rightarrow> bool" where
  "subscription_invariant l =
     ((case cleanup l of
         None \<Rightarrow> listeners l = []
       | Some i \<Rightarrow> mounted l \<and> (\<exists>c. listeners l = [(i, c)] \<and> last_deps l = Some (Some c)))
      \<and> (\<forall>i \<in> live l. i < next_subscription l)
      \<and> (\<forall>i c. (i, c) \<in> set (listeners l) \<longrightarrow> Subscribe i c \<in> set (trace l))
      \<and> (\<forall>i c. Subscribe i c \<in> set (trace l) \<longrightarrow>
            i < next_subscription l \<and> (i \<in> live l \<or> Unsubscribe i \<in> set (trace l)))
      \<and> (\<forall>i. Unsubscribe i \<in> set (trace l) \<longrightarrow> i \<notin> live l \<and> i < next_subscription l)
      \<and> (\<forall>t1 i c t2. trace l = t1 @ Subscribe i c # t2 \<longrightarrow>
            (\<forall>j c'. Subscribe j c' \<in> set t1 \<longrightarrow> Unsubscribe j \<in> set t1))
      \<and> (\<forall>t1 i t2 e. trace l = t1 @ Unsubscribe i # t2 \<longrightarrow> Deliver i e \<notin> set t2))"

section \<open>Evaluating the platform functions\<close>

lemmas atob_eval = atob_def strip_padding_def is_ascii_whitespace_def base64_value_def
  Let_def char_of_def bit_Suc_0_iff

lemmas JSON_eval = JSON_parse_def parse_value.simps parse_elements.simps parse_members.simps
  skip_ws_def is_json_whitespace_def cons_unit_def
  escape_value_def hex_value_def parse_number_def parse_int_def parse_frac_def parse_exp_def
  parse_digits_def is_digit_def parse_literal_def Let_def js_def

text \<open>
  The two keys of the specification's scenarios: the payload of the first decodes to
  \<^verbatim>\<open>{"role":"service_role"}\<close>, the payload of the second to \<^verbatim>\<open>{"role":"anon"}\<close>.
\<close>

lemma service_key_split:
  "string_split CHR ''.'' ''eyJhbGciOiJIUzI1NiJ9.eyJyb2xlIjoic2VydmljZV9yb2xlIn0.sig'' =
     [''eyJhbGciOiJIUzI1NiJ9'', ''eyJyb2xlIjoic2VydmljZV9yb2xlIn0'', ''sig'']"
  by (simp add: string_split_def)

lemma anon_key_split:
  "string_split CHR ''.'' ''eyJhbGciOiJIUzI1NiJ9.eyJyb2xlIjoiYW5vbiJ9.sig'' =
     [''eyJhbGciOiJIUzI1NiJ9'', ''eyJyb2xlIjoiYW5vbiJ9'', ''sig'']"
  by (simp add: string_split_def)

lemma service_payload_atob:
  \<open>atob ''eyJyb2xlIjoic2VydmljZV9yb2xlIn0'' = Inr ''{"role":"service_role"}''\<close>
  by (simp add: atob_eval)

lemma anon_payload_atob:
  \<open>atob ''eyJyb2xlIjoiYW5vbiJ9'' = Inr ''{"role":"anon"}''\<close>
  by (simp add: atob_eval)

lemma service_payload_JSON:
  \<open>JSON_parse ''{"role":"service_role"}'' =
     Inr (JObject [(js ''role'', JString (js ''service_role''))])\<close>
  by (simp add: JSON_eval)

lemma anon_payload_JSON:
  \<open>JSON_parse ''{"role":"anon"}'' = Inr (JObject [(js ''role'', JString (js ''anon''))])\<close>
  by (simp add: JSON_eval)

lemma service_key_guard:
  "checkForServiceRole ''eyJhbGciOiJIUzI1NiJ9.eyJyb2xlIjoic2VydmljZV9yb2xlIn0.sig'' = Inr True"
  by (simp add: checkForServiceRole_def service_key_split service_payload_atob
      service_payload_JSON try_catch_def strict_equals_def)

lemma anon_key_guard:
  "checkForServiceRole ''eyJhbGciOiJIUzI1NiJ9.eyJyb2xlIjoiYW5vbiJ9.sig'' = Inr False"
  by (simp add: checkForServiceRole_def anon_key_split anon_payload_atob
      anon_payload_JSON try_catch_def strict_equals_def js_def)

lemma empty_key_guard: "checkForServiceRole [] = Inr False"
  by (simp add: checkForServiceRole_def string_split_def)

section \<open>The parser consumes what it reads\<close>

lemma length_skip_ws: "length (skip_ws s) \<le> length s"
  by (simp add: skip_ws_def length_dropWhile_le)

lemma skip_ws_Cons: "skip_ws s = c # r \<Longrightarrow> length r < length s"
  using length_skip_ws [of s] by simp

lemma cons_unit_Some:
  "cons_unit u x = Some (us, rest) \<Longrightarrow> \<exists>us'. x = Some (us', rest)"
  by (auto simp add: cons_unit_def split: option.splits)

lemma parse_chars_consumes:
  "parse_chars s = Some (us, rest) \<Longrightarrow> length rest < length s"
proof (induction "length s" arbitrary: s us rest rule: less_induct)
  case less
  note IH = less.hyps
  from less.prems obtain c cs where s: "s = c # cs"
    by (cases s) auto
  show ?case
  proof (cases "c = CHR 0x22")
    case True
    with less.prems s show ?thesis by simp
  next
    case notq: False
    show ?thesis
    proof (cases "c = CHR 0x5C")
      case False
      with notq less.prems s
      have "cons_unit (of_char c) (parse_chars cs) = Some (us, rest)"
        by (simp split: if_splits)
      then obtain us' where "parse_chars cs = Some (us', rest)"
        by (blast dest: cons_unit_Some)
      from IH [OF _ this] s show ?thesis by simp
    next
      case True
      with notq less.prems s obtain e r where cs: "cs = e # r"
        by (cases cs) auto
      show ?thesis
      proof (cases "e = CHR ''u''")
        case False
        with True notq less.prems s cs
        obtain u where "cons_unit u (parse_chars r) = Some (us, rest)"
          by (auto split: option.splits)
        then obtain us' where "parse_chars r = Some (us', rest)"
          by (blast dest: cons_unit_Some)
        from IH [OF _ this] s cs show ?thesis by simp
      next
        case u: True
        with True notq less.prems s cs
        have eq: "(case r of
                  h1 # h2 # h3 # h4 # r' \<Rightarrow>
                    (case (hex_value h1, hex_value h2, hex_value h3, hex_value h4) of
                       (Some a, Some b, Some c, Some d) \<Rightarrow>
                         cons_unit (((a * 16 + b) * 16 + c) * 16 + d) (parse_chars r')
                     | _ \<Rightarrow> None)
                | _ \<Rightarrow> None) = Some (us, rest)"
          by simp
        then obtain h1 h2 h3 h4 r' where r: "r = h1 # h2 # h3 # h4 # r'"
          by (auto split: list.splits)
        with eq obtain n where "cons_unit n (parse_chars r') = Some (us, rest)"
          by (auto split: option.splits)
        then obtain us' where "parse_chars r' = Some (us', rest)"
          by (blast dest: cons_unit_Some)
        from IH [OF _ this] s cs r show ?thesis by simp
      qed
    qed
  qed
qed

lemma parse_digits_consumes:
  "parse_digits s = Some (ds, rest) \<Longrightarrow> length rest \<le> length s"
  by (auto simp add: parse_digits_def length_dropWhile_le split: if_splits)

lemma parse_number_consumes:
  "parse_number s = Some (lexeme, rest) \<Longrightarrow> length rest < length s"
proof -
  have i: "parse_int x = Some (a, y) \<Longrightarrow> length y < length x" for x a y
    by (auto simp add: parse_int_def length_dropWhile_le less_Suc_eq_le
        split: list.splits if_splits)
  have f: "parse_frac x = Some (a, y) \<Longrightarrow> length y \<le> length x" for x a y
    by (auto simp add: parse_frac_def split: list.splits if_splits option.splits
        dest!: parse_digits_consumes)
  have e: "parse_exp x = Some (a, y) \<Longrightarrow> length y \<le> length x" for x a y
    by (auto simp add: parse_exp_def split: list.splits if_splits option.splits
        dest!: parse_digits_consumes)
  assume "parse_number s = Some (lexeme, rest)"
  then show ?thesis
    by (auto simp add: parse_number_def split: list.splits if_splits option.splits
        dest!: i f e)
qed

lemma parse_literal_consumes:
  "parse_literal word v s = Some (v', rest) \<Longrightarrow> word \<noteq> [] \<Longrightarrow> length rest < length s"
  by (cases s) (auto simp add: parse_literal_def split: if_splits)


lemma parse_value_consumes:
  "parse_value s = Some (v, rest) \<Longrightarrow> length rest < length s"
  "parse_elements s1 = Some (vs, rest1) \<Longrightarrow> length rest1 < length s1"
  "parse_members s2 = Some (ms, rest2) \<Longrightarrow> length rest2 < length s2"
proof (induction s and s1 and s2 arbitrary: v rest and vs rest1 and ms rest2
    rule: parse_value_parse_elements_parse_members.induct)
  case (1 s)
  from "1.prems" obtain c r where sk: "skip_ws s = c # r"
    by (subst (asm) parse_value.simps) (auto split: list.splits)
  note r = skip_ws_Cons [OF sk]
  show ?case
  proof (cases "c = CHR ''{''")
    case True
    with "1.prems" sk obtain c' r' where sk': "skip_ws r = c' # r'"
      by (subst (asm) parse_value.simps) (auto split: list.splits)
    show ?thesis
    proof (cases "c' = CHR ''}''")
      case True
      with \<open>c = CHR ''{''\<close> "1.prems" sk sk' have "rest = r'"
        by (subst (asm) parse_value.simps) simp
      with skip_ws_Cons [OF sk'] r show ?thesis by simp
    next
      case False
      with \<open>c = CHR ''{''\<close> "1.prems" sk sk' obtain ms where "parse_members r = Some (ms, rest)"
        by (subst (asm) parse_value.simps) (auto split: option.splits)
      from "1.IH"(1) [OF sk \<open>c = CHR ''{''\<close> sk' False this] r show ?thesis by simp
    qed
  next
    case no: False
    show ?thesis
    proof (cases "c = CHR ''[''")
      case True
      with "1.prems" sk obtain c' r' where sk': "skip_ws r = c' # r'"
        by (subst (asm) parse_value.simps) (auto split: list.splits)
      show ?thesis
      proof (cases "c' = CHR '']''")
        case True
        with \<open>c = CHR ''[''\<close> "1.prems" sk sk' have "rest = r'"
          by (subst (asm) parse_value.simps) simp
        with skip_ws_Cons [OF sk'] r show ?thesis by simp
      next
        case False
        with \<open>c = CHR ''[''\<close> "1.prems" sk sk' obtain vs where "parse_elements r = Some (vs, rest)"
          by (subst (asm) parse_value.simps) (auto split: option.splits)
        from "1.IH"(2) [OF sk no \<open>c = CHR ''[''\<close> sk' False this] r show ?thesis by simp
      qed
    next
      case na: False
      from "1.prems" sk no na
      have "(\<exists>us. parse_chars r = Some (us, rest))
          \<or> (\<exists>w x. w \<noteq> [] \<and> parse_literal w x (c # r) = Some (v, rest))
          \<or> (\<exists>lexeme. parse_number (c # r) = Some (lexeme, rest))"
        by (subst (asm) parse_value.simps) (auto split: option.splits if_splits)
      then have "length rest < length (c # r)"
        by (auto dest: parse_chars_consumes parse_literal_consumes parse_number_consumes
            simp add: less_SucI)
      with r show ?thesis by simp
    qed
  qed
next
  case (2 s)
  from "2.prems" obtain v rest where pv: "parse_value s = Some (v, rest)"
    by (subst (asm) parse_elements.simps) (auto split: option.splits)
  note a = "2.IH"(1) [OF pv]
  from "2.prems" pv obtain c r where sk: "skip_ws rest = c # r"
    by (subst (asm) parse_elements.simps) (auto split: list.splits)
  note b = skip_ws_Cons [OF sk]
  show ?case
  proof (cases "c = CHR '']''")
    case True
    with "2.prems" pv sk have "rest1 = r"
      by (subst (asm) parse_elements.simps) simp
    with a b show ?thesis by simp
  next
    case False
    with "2.prems" pv sk have g: "c = CHR '','' \<and> length r < length s"
      by (subst (asm) parse_elements.simps) (auto split: if_splits)
    with False "2.prems" pv sk obtain vs' where pe: "parse_elements r = Some (vs', rest1)"
      by (subst (asm) parse_elements.simps) (auto split: option.splits)
    from "2.IH"(2) [OF pv refl sk False g pe] g show ?thesis by simp
  qed
next
  case (3 s)
  from "3.prems" obtain q r where sk: "skip_ws s = q # r"
    by (subst (asm) parse_members.simps) (auto split: list.splits)
  from "3.prems" sk have q: "q = CHR 0x22"
    by (subst (asm) parse_members.simps) (auto split: if_splits)
  from "3.prems" sk q obtain k rest where pc: "parse_chars r = Some (k, rest)"
    by (subst (asm) parse_members.simps) (auto split: option.splits)
  from "3.prems" sk q pc obtain c r1 where sk1: "skip_ws rest = c # r1"
    by (subst (asm) parse_members.simps) (auto split: list.splits)
  from "3.prems" sk q pc sk1 have g1: "c = CHR '':'' \<and> length r1 < length s"
    by (subst (asm) parse_members.simps) (auto split: if_splits)
  from "3.prems" sk q pc sk1 g1 obtain v rest1 where pv: "parse_value r1 = Some (v, rest1)"
    by (subst (asm) parse_members.simps) (auto split: option.splits)
  note a = "3.IH"(1) [OF sk q pc refl sk1 g1 pv]
  from "3.prems" sk q pc sk1 g1 pv obtain c' r2 where sk2: "skip_ws rest1 = c' # r2"
    by (subst (asm) parse_members.simps) (auto split: list.splits)
  note b = skip_ws_Cons [OF sk2]
  show ?case
  proof (cases "c' = CHR ''}''")
    case True
    with "3.prems" sk q pc sk1 g1 pv sk2 have "rest2 = r2"
      by (subst (asm) parse_members.simps) simp
    with a b g1 show ?thesis by simp
  next
    case False
    with "3.prems" sk q pc sk1 g1 pv sk2 have g2: "c' = CHR '','' \<and> length r2 < length s"
      by (subst (asm) parse_members.simps) (auto split: if_splits)
    with False "3.prems" sk q pc sk1 g1 pv sk2
    obtain ms' where pm: "parse_members r2 = Some (ms', rest2)"
      by (subst (asm) parse_members.simps) (auto split: option.splits)
    from "3.IH"(2) [OF sk q pc refl sk1 g1 pv refl sk2 False g2 pm] g2 show ?thesis by simp
  qed
qed

lemma parse_elements_plain:
  "parse_elements s =
     (case parse_value s of
        None \<Rightarrow> None
      | Some (v, rest) \<Rightarrow>
          (case skip_ws rest of
             [] \<Rightarrow> None
           | c # r \<Rightarrow>
               if c = CHR '']'' then Some ([v], r)
               else if c = CHR '','' then
                 (case parse_elements r of
                    None \<Rightarrow> None
                  | Some (vs, rest') \<Rightarrow> Some (v # vs, rest'))
               else None))"
proof (cases "parse_value s")
  case None
  then show ?thesis by (subst parse_elements.simps) simp
next
  case (Some p)
  obtain v rest where p: "p = (v, rest)" by (cases p)
  show ?thesis
  proof (cases "skip_ws rest")
    case Nil
    with Some p show ?thesis by (subst parse_elements.simps) simp
  next
    case (Cons c r)
    from parse_value_consumes(1) [of s v rest] Some p skip_ws_Cons [OF Cons]
    have "length r < length s" by simp
    with Some p Cons show ?thesis by (subst parse_elements.simps) simp
  qed
qed

lemma parse_members_plain:
  "parse_members s =
     (case skip_ws s of
        [] \<Rightarrow> None
      | q # r \<Rightarrow>
          if q = CHR 0x22 then
            (case parse_chars r of
               None \<Rightarrow> None
             | Some (k, rest) \<Rightarrow>
                 (case skip_ws rest of
                    [] \<Rightarrow> None
                  | c # r1 \<Rightarrow>
                      if c = CHR '':'' then
                        (case parse_value r1 of
                           None \<Rightarrow> None
                         | Some (v, rest1) \<Rightarrow>
                             (case skip_ws rest1 of
                                [] \<Rightarrow> None
                              | c' # r2 \<Rightarrow>
                                  if c' = CHR ''}'' then Some ([(k, v)], r2)
                                  else if c' = CHR '','' then
                                    (case parse_members r2 of
                                       None \<Rightarrow> None
                                     | Some (ms, rest2) \<Rightarrow> Some ((k, v) # ms, rest2))
                                  else None))
                      else None))
          else None)"
proof (cases "skip_ws s")
  case Nil
  then show ?thesis by (subst parse_members.simps) simp
next
  case sk: (Cons q r)
  show ?thesis
  proof (cases "parse_chars r")
    case None
    with sk show ?thesis by (subst parse_members.simps) simp
  next
    case (Some p)
    obtain k rest where p: "p = (k, rest)" by (cases p)
    show ?thesis
    proof (cases "skip_ws rest")
      case Nil
      with sk Some p show ?thesis by (subst parse_members.simps) simp
    next
      case sk1: (Cons c r1)
      from parse_chars_consumes [of r k rest] Some p skip_ws_Cons [OF sk]
        skip_ws_Cons [OF sk1]
      have g1: "length r1 < length s" by simp
      show ?thesis
      proof (cases "parse_value r1")
        case None
        with sk Some p sk1 show ?thesis by (subst parse_members.simps) simp
      next
        case pv: (Some p1)
        obtain v rest1 where p1: "p1 = (v, rest1)" by (cases p1)
        show ?thesis
        proof (cases "skip_ws rest1")
          case Nil
          with sk Some p sk1 pv p1 show ?thesis by (subst parse_members.simps) simp
        next
          case sk2: (Cons c' r2)
          from parse_value_consumes(1) [of r1 v rest1] pv p1 skip_ws_Cons [OF sk2] g1
          have "length r2 < length s" by simp
          with sk Some p sk1 pv p1 sk2 g1 show ?thesis
            by (subst parse_members.simps) simp
        qed
      qed
    qed
  qed
qed

section \<open>The key guard classifies by the role\<close>

lemma member_role_service:
  "(member_role data = Inr (Some (JString (js ''service_role'')))) =
   (\<exists>members. data = JObject members \<and>
      map_of (rev members) (js ''role'') = Some (JString (js ''service_role'')))"
  by (cases data) simp_all

text \<open>
  C1. For a token with exactly three segments whose middle segment decodes with
  \<^verbatim>\<open>atob\<close> and parses with \<^verbatim>\<open>JSON.parse\<close>, \<^verbatim>\<open>checkForServiceRole\<close> returns true exactly
  when the parsed data is an object whose \<^verbatim>\<open>role\<close> property is the string
  \<^verbatim>\<open>service_role\<close>; for any other value of the property, when the property is absent,
  and when the data is not an object, it returns false.
\<close>

theorem checkForServiceRole_role:
  assumes "length (string_split CHR ''.'' jwt) = 3"
    and "atob (string_split CHR ''.'' jwt ! 1) = Inr json"
    and "JSON_parse json = Inr data"
  shows "checkForServiceRole jwt =
           Inr (\<exists>members. data = JObject members \<and>
                  map_of (rev members) (js ''role'') = Some (JString (js ''service_role'')))"
proof (cases "member_role data")
  case (Inl e)
  then have "\<not> (\<exists>members. data = JObject members \<and>
      map_of (rev members) (js ''role'') = Some (JString (js ''service_role'')))"
    using member_role_service [of data] by simp
  with Inl assms show ?thesis
    by (simp add: checkForServiceRole_def try_catch_def)
next
  case (Inr role)
  with assms show ?thesis
    using member_role_service [of data]
    by (simp add: checkForServiceRole_def try_catch_def strict_equals_def)
qed

theorem checkForServiceRole_role_witness:
  \<open>length (string_split CHR ''.''
      ''eyJhbGciOiJIUzI1NiJ9.eyJyb2xlIjoic2VydmljZV9yb2xlIn0.sig'') = 3
   \<and> atob (string_split CHR ''.''
      ''eyJhbGciOiJIUzI1NiJ9.eyJyb2xlIjoic2VydmljZV9yb2xlIn0.sig'' ! 1)
       = Inr ''{"role":"service_role"}''
   \<and> JSON_parse ''{"role":"service_role"}''
       = Inr (JObject [(js ''role'', JString (js ''service_role''))])
   \<and> checkForServiceRole ''eyJhbGciOiJIUzI1NiJ9.eyJyb2xlIjoic2VydmljZV9yb2xlIn0.sig''
       = Inr True
   \<and> length (string_split CHR ''.'' ''eyJhbGciOiJIUzI1NiJ9.eyJyb2xlIjoiYW5vbiJ9.sig'') = 3
   \<and> atob (string_split CHR ''.'' ''eyJhbGciOiJIUzI1NiJ9.eyJyb2xlIjoiYW5vbiJ9.sig'' ! 1)
       = Inr ''{"role":"anon"}''
   \<and> JSON_parse ''{"role":"anon"}'' = Inr (JObject [(js ''role'', JString (js ''anon''))])
   \<and> checkForServiceRole ''eyJhbGciOiJIUzI1NiJ9.eyJyb2xlIjoiYW5vbiJ9.sig'' = Inr False\<close>
proof -
  have s1: "length (string_split CHR ''.''
      ''eyJhbGciOiJIUzI1NiJ9.eyJyb2xlIjoic2VydmljZV9yb2xlIn0.sig'') = 3"
    by (simp add: service_key_split)
  have s2: \<open>atob (string_split CHR ''.''
      ''eyJhbGciOiJIUzI1NiJ9.eyJyb2xlIjoic2VydmljZV9yb2xlIn0.sig'' ! 1)
       = Inr ''{"role":"service_role"}''\<close>
    by (simp add: service_key_split service_payload_atob)
  have a1: "length (string_split CHR ''.'' ''eyJhbGciOiJIUzI1NiJ9.eyJyb2xlIjoiYW5vbiJ9.sig'') = 3"
    by (simp add: anon_key_split)
  have a2: \<open>atob (string_split CHR ''.'' ''eyJhbGciOiJIUzI1NiJ9.eyJyb2xlIjoiYW5vbiJ9.sig'' ! 1)
       = Inr ''{"role":"anon"}''\<close>
    by (simp add: anon_key_split anon_payload_atob)
  have s: "checkForServiceRole ''eyJhbGciOiJIUzI1NiJ9.eyJyb2xlIjoic2VydmljZV9yb2xlIn0.sig''
       = Inr True"
    using checkForServiceRole_role [OF s1 s2 service_payload_JSON] by simp
  have a: "checkForServiceRole ''eyJhbGciOiJIUzI1NiJ9.eyJyb2xlIjoiYW5vbiJ9.sig'' = Inr False"
    using checkForServiceRole_role [OF a1 a2 anon_payload_JSON] by (simp add: js_def)
  from s1 s2 service_payload_JSON s a1 a2 anon_payload_JSON a show ?thesis
    by (intro conjI)
qed

section \<open>The key guard fails open\<close>

text \<open>
  C7. A string that does not split on \<^verbatim>\<open>.\<close> into exactly three segments, and a string of
  three segments whose middle segment \<^verbatim>\<open>atob\<close> rejects or whose decoded middle segment
  \<^verbatim>\<open>JSON.parse\<close> rejects, is classified as not privileged: \<^verbatim>\<open>checkForServiceRole\<close>
  returns false.
\<close>

theorem checkForServiceRole_malformed:
  assumes "length (string_split CHR ''.'' jwt) \<noteq> 3
         \<or> (\<exists>e. atob (string_split CHR ''.'' jwt ! 1) = Inl e)
         \<or> (\<exists>json e. atob (string_split CHR ''.'' jwt ! 1) = Inr json
               \<and> JSON_parse json = Inl e)"
  shows "checkForServiceRole jwt = Inr False"
  using assms
  by (auto simp add: checkForServiceRole_def try_catch_def Let_def)

theorem checkForServiceRole_malformed_witness:
  \<open>length (string_split CHR ''.'' ''not a token'') \<noteq> 3
   \<and> checkForServiceRole ''not a token'' = Inr False
   \<and> atob (string_split CHR ''.'' ''a.b.c'' ! 1) = Inl InvalidCharacterError
   \<and> checkForServiceRole ''a.b.c'' = Inr False
   \<and> atob (string_split CHR ''.'' ''a.e3Jv.c'' ! 1) = Inr ''{ro''
   \<and> JSON_parse ''{ro'' = Inl SyntaxError
   \<and> checkForServiceRole ''a.e3Jv.c'' = Inr False\<close>
proof -
  have n: "length (string_split CHR ''.'' ''not a token'') \<noteq> 3"
    by (simp add: string_split_def)
  have d: "atob (string_split CHR ''.'' ''a.b.c'' ! 1) = Inl InvalidCharacterError"
    by (simp add: string_split_def atob_eval)
  have p1: "atob (string_split CHR ''.'' ''a.e3Jv.c'' ! 1) = Inr ''{ro''"
    by (simp add: string_split_def atob_eval)
  have p2: "JSON_parse ''{ro'' = Inl SyntaxError"
    by (simp add: JSON_eval)
  have r1: "checkForServiceRole ''not a token'' = Inr False"
    using checkForServiceRole_malformed [of "''not a token''"] n by simp
  have r2: "checkForServiceRole ''a.b.c'' = Inr False"
    using checkForServiceRole_malformed [of "''a.b.c''"] d by simp
  have r3: "checkForServiceRole ''a.e3Jv.c'' = Inr False"
    using checkForServiceRole_malformed [of "''a.e3Jv.c''"] p1 p2 by simp
  from n r1 d r2 p1 p2 r3 show ?thesis
    by (intro conjI)
qed

section \<open>The key guard never throws\<close>

text \<open>
  C9. \<^verbatim>\<open>checkForServiceRole\<close> is total: for every string it returns a boolean and
  nothing escapes from it. The segment count is tested before anything is decoded,
  and whatever \<^verbatim>\<open>atob\<close>, \<^verbatim>\<open>JSON.parse\<close> or the member access throws is caught and
  turned into false.
\<close>

theorem checkForServiceRole_total:
  "checkForServiceRole jwt = Inr True \<or> checkForServiceRole jwt = Inr False"
  by (simp add: checkForServiceRole_def try_catch_def Let_def split: sum.splits)

text \<open>
  The three exceptions at work: \<^verbatim>\<open>atob\<close> rejects \<^verbatim>\<open>b\<close>; \<^verbatim>\<open>JSON.parse\<close> rejects the
  decoded \<^verbatim>\<open>{ro\<close>; the payload \<^verbatim>\<open>bnVsbA==\<close> decodes to \<^verbatim>\<open>null\<close>, whose \<^verbatim>\<open>role\<close> cannot
  be read.
\<close>

theorem checkForServiceRole_total_witness:
  "atob ''b'' = Inl InvalidCharacterError
   \<and> checkForServiceRole ''a.b.c'' = Inr False
   \<and> atob ''bnVsbA=='' = Inr ''null''
   \<and> JSON_parse ''null'' = Inr JNull
   \<and> member_role JNull = Inl TypeError
   \<and> checkForServiceRole ''a.bnVsbA==.c'' = Inr False"
proof -
  have d: "atob ''b'' = Inl InvalidCharacterError"
    by (simp add: atob_eval)
  have n1: "atob ''bnVsbA=='' = Inr ''null''"
    by (simp add: atob_eval)
  have n2: "JSON_parse ''null'' = Inr JNull"
    by (simp add: JSON_eval)
  have s1: "string_split CHR ''.'' ''a.b.c'' = [''a'', ''b'', ''c'']"
    by (simp add: string_split_def)
  have s2: "string_split CHR ''.'' ''a.bnVsbA==.c'' = [''a'', ''bnVsbA=='', ''c'']"
    by (simp add: string_split_def)
  have r1: "checkForServiceRole ''a.b.c'' \<noteq> Inr True"
    by (simp add: checkForServiceRole_def s1 d try_catch_def)
  have r2: "checkForServiceRole ''a.bnVsbA==.c'' \<noteq> Inr True"
    by (simp add: checkForServiceRole_def s2 n1 n2 try_catch_def)
  from checkForServiceRole_total [of "''a.b.c''"] r1
  have t1: "checkForServiceRole ''a.b.c'' = Inr False" by blast
  from checkForServiceRole_total [of "''a.bnVsbA==.c''"] r2
  have t2: "checkForServiceRole ''a.bnVsbA==.c'' = Inr False" by blast
  from d t1 n1 n2 t2 show ?thesis
    by simp
qed



section \<open>A service-role key is rejected\<close>

text \<open>
  C2. When \<^verbatim>\<open>checkForServiceRole\<close> returns true for the candidate key, \<^verbatim>\<open>updateKey\<close>
  rejects it: it shows the warning, sets the key field to the empty string and makes
  no \<^verbatim>\<open>localStorage.setItem\<close> call; the other state is left as it was.
\<close>

theorem updateKey_rejects_service_role:
  assumes "checkForServiceRole k = Inr True"
  shows "\<exists>h'. updateKey k h = Inr h'
           \<and> alerts h' = alerts h @ [service_role_warning]
           \<and> key h' = Some []
           \<and> localStorage h' = localStorage h
           \<and> url h' = url h \<and> session h' = session h \<and> error h' = error h"
  using assms by (simp add: updateKey_def)

theorem updateKey_rejects_service_role_witness:
  "checkForServiceRole ''eyJhbGciOiJIUzI1NiJ9.eyJyb2xlIjoic2VydmljZV9yb2xlIn0.sig'' = Inr True
   \<and> (\<exists>h'. updateKey ''eyJhbGciOiJIUzI1NiJ9.eyJyb2xlIjoic2VydmljZV9yb2xlIn0.sig''
               (Home_initial True [(''SB_KEY'', ''old'')]) = Inr h'
          \<and> alerts h' = [service_role_warning]
          \<and> key h' = Some []
          \<and> localStorage h' = [(''SB_KEY'', ''old'')])"
proof -
  from updateKey_rejects_service_role [OF service_key_guard,
      of "Home_initial True [(''SB_KEY'', ''old'')]"]
  obtain h' where
    "updateKey ''eyJhbGciOiJIUzI1NiJ9.eyJyb2xlIjoic2VydmljZV9yb2xlIn0.sig''
       (Home_initial True [(''SB_KEY'', ''old'')]) = Inr h'"
    "alerts h' = alerts (Home_initial True [(''SB_KEY'', ''old'')]) @ [service_role_warning]"
    "key h' = Some []"
    "localStorage h' = localStorage (Home_initial True [(''SB_KEY'', ''old'')])"
    by blast
  then show ?thesis
    by (simp add: service_key_guard Home_initial_def)
qed

section \<open>The guard stands before the key field only\<close>

lemma holds_service_role_simps:
  "holds_service_role None = False"
  "holds_service_role (Some s) = (checkForServiceRole s = Inr True)"
  by (simp_all add: holds_service_role_def)

lemma updateKey_keeps_key_clean:
  assumes "\<not> holds_service_role (getItem (localStorage h) KEY_STORAGE_KEY)"
  shows "\<exists>h'. updateKey k h = Inr h' \<and> \<not> holds_service_role (key h')
           \<and> \<not> holds_service_role (getItem (localStorage h') KEY_STORAGE_KEY)"
proof (cases "checkForServiceRole k = Inr True")
  case True
  with assms show ?thesis
    by (simp add: updateKey_def holds_service_role_simps empty_key_guard)
next
  case False
  have "checkForServiceRole k = Inr True \<or> checkForServiceRole k = Inr False"
    by (simp add: checkForServiceRole_def try_catch_def Let_def split: sum.splits)
  with False have "checkForServiceRole k = Inr False" by blast
  then show ?thesis
    by (simp add: updateKey_def holds_service_role_simps getItem_def setItem_def)
qed

lemma updateUrl_keeps_key_clean:
  assumes "\<not> holds_service_role (key h)"
    and "\<not> holds_service_role (getItem (localStorage h) KEY_STORAGE_KEY)"
  shows "\<not> holds_service_role (key (updateUrl u h))
       \<and> \<not> holds_service_role (getItem (localStorage (updateUrl u h)) KEY_STORAGE_KEY)"
  using assms
  by (simp add: updateUrl_def getItem_def setItem_def URL_STORAGE_KEY_def KEY_STORAGE_KEY_def)

text \<open>
  C3, as amended. The guard is applied before every write of the key field
  (\<^verbatim>\<open>updateKey\<close>) and before no write of the URL field (\<^verbatim>\<open>updateUrl\<close>). So for every
  sequence of changes of the two input fields, from a state whose key field and stored
  key are not service-role keys, every handler returns and the key field and the
  stored key are still not service-role keys.
\<close>

theorem key_field_never_service_role:
  assumes "\<not> holds_service_role (key h)"
    and "\<not> holds_service_role (getItem (localStorage h) KEY_STORAGE_KEY)"
  shows "\<exists>h'. onChanges inputs h = Inr h'
           \<and> \<not> holds_service_role (key h')
           \<and> \<not> holds_service_role (getItem (localStorage h') KEY_STORAGE_KEY)"
  using assms
proof (induction inputs arbitrary: h)
  case Nil
  then show ?case by simp
next
  case (Cons i inputs)
  show ?case
  proof (cases i)
    case (KeyInput k)
    from updateKey_keeps_key_clean [OF Cons.prems(2), of k]
    obtain h1 where "updateKey k h = Inr h1" "\<not> holds_service_role (key h1)"
      "\<not> holds_service_role (getItem (localStorage h1) KEY_STORAGE_KEY)"
      by blast
    with Cons.IH [of h1] KeyInput show ?thesis by simp
  next
    case (UrlInput u)
    from updateUrl_keeps_key_clean [OF Cons.prems, of u] Cons.IH [of "updateUrl u h"] UrlInput
    show ?thesis by simp
  qed
qed

theorem key_field_never_service_role_witness:
  "\<not> holds_service_role (key (Home_initial True []))
   \<and> \<not> holds_service_role (getItem (localStorage (Home_initial True [])) KEY_STORAGE_KEY)
   \<and> (\<exists>h'. onChanges
          [KeyInput ''eyJhbGciOiJIUzI1NiJ9.eyJyb2xlIjoiYW5vbiJ9.sig'',
           UrlInput ''https://project.example'',
           KeyInput ''eyJhbGciOiJIUzI1NiJ9.eyJyb2xlIjoic2VydmljZV9yb2xlIn0.sig'']
          (Home_initial True []) = Inr h'
        \<and> \<not> holds_service_role (key h')
        \<and> \<not> holds_service_role (getItem (localStorage h') KEY_STORAGE_KEY))"
proof -
  have a: "\<not> holds_service_role (key (Home_initial True []))"
    by (simp add: Home_initial_def getCachedItem_def getItem_def holds_service_role_simps)
  have b: "\<not> holds_service_role (getItem (localStorage (Home_initial True [])) KEY_STORAGE_KEY)"
    by (simp add: Home_initial_def getItem_def holds_service_role_simps)
  from a b key_field_never_service_role [OF a b] show ?thesis
    by blast
qed

text \<open>
  C3 as stated fails: the URL field takes a service-role key, and the key is written
  to \<^verbatim>\<open>localStorage\<close>.
\<close>

theorem url_field_service_role_counterexample:
  "onChanges [UrlInput ''eyJhbGciOiJIUzI1NiJ9.eyJyb2xlIjoic2VydmljZV9yb2xlIn0.sig'']
     (Home_initial True [])
   = Inr (updateUrl ''eyJhbGciOiJIUzI1NiJ9.eyJyb2xlIjoic2VydmljZV9yb2xlIn0.sig''
            (Home_initial True []))
   \<and> url (updateUrl ''eyJhbGciOiJIUzI1NiJ9.eyJyb2xlIjoic2VydmljZV9yb2xlIn0.sig''
            (Home_initial True []))
       = Some ''eyJhbGciOiJIUzI1NiJ9.eyJyb2xlIjoic2VydmljZV9yb2xlIn0.sig''
   \<and> getItem (localStorage
         (updateUrl ''eyJhbGciOiJIUzI1NiJ9.eyJyb2xlIjoic2VydmljZV9yb2xlIn0.sig''
            (Home_initial True []))) URL_STORAGE_KEY
       = Some ''eyJhbGciOiJIUzI1NiJ9.eyJyb2xlIjoic2VydmljZV9yb2xlIn0.sig''
   \<and> holds_service_role
        (url (updateUrl ''eyJhbGciOiJIUzI1NiJ9.eyJyb2xlIjoic2VydmljZV9yb2xlIn0.sig''
            (Home_initial True [])))"
  by (simp add: updateUrl_def getItem_def setItem_def holds_service_role_simps
      service_key_guard)

section \<open>The session state follows the auth events\<close>

lemma authStateChanges_append:
  "authStateChanges (es @ es') h = authStateChanges es' (authStateChanges es h)"
  by (induction es arbitrary: h) auto

text \<open>
  C4. The session state starts as no session. A \<^verbatim>\<open>SIGNED_IN\<close> or \<^verbatim>\<open>TOKEN_REFRESHED\<close>
  event with a session \<open>S\<close> makes the state \<open>S\<close>, whatever it was; a \<^verbatim>\<open>SIGNED_OUT\<close>
  event makes it no session; any other event kind changes nothing; and the callback
  touches nothing but the session. After any sequence of events that ends with
  \<^verbatim>\<open>SIGNED_OUT\<close> there is no session.
\<close>

theorem authStateChange_transitions:
  "session (Home_initial window_defined st) = None
   \<and> (event = ''SIGNED_IN'' \<or> event = ''TOKEN_REFRESHED''
        \<longrightarrow> authStateChange event (Some S) h = h\<lparr> session := Some S \<rparr>)
   \<and> authStateChange ''SIGNED_OUT'' s h = h\<lparr> session := None \<rparr>
   \<and> (event \<noteq> ''SIGNED_IN'' \<and> event \<noteq> ''TOKEN_REFRESHED'' \<and> event \<noteq> ''SIGNED_OUT''
        \<longrightarrow> authStateChange event s h = h)
   \<and> session (authStateChanges (es @ [(''SIGNED_OUT'', s)]) h) = None"
proof -
  have a: "session (Home_initial window_defined st) = None"
    by (simp add: Home_initial_def)
  have b: "event = ''SIGNED_IN'' \<or> event = ''TOKEN_REFRESHED''
        \<longrightarrow> authStateChange event (Some S) h = h\<lparr> session := Some S \<rparr>"
    by (auto simp add: authStateChange_def)
  have c: "authStateChange ''SIGNED_OUT'' s' h' = h'\<lparr> session := None \<rparr>" for s' h'
    by (simp add: authStateChange_def)
  have d: "event \<noteq> ''SIGNED_IN'' \<and> event \<noteq> ''TOKEN_REFRESHED'' \<and> event \<noteq> ''SIGNED_OUT''
        \<longrightarrow> authStateChange event s h = h"
    by (simp add: authStateChange_def)
  have e: "session (authStateChanges (es @ [(''SIGNED_OUT'', s)]) h) = None"
    by (simp add: authStateChanges_append c)
  from a b c d e show ?thesis by blast
qed

theorem authStateChange_transitions_witness:
  "authStateChanges
     [(''SIGNED_IN'', Some \<lparr> access_token = ''a.b.c'', user_email = Some ''u@example.org'' \<rparr>),
      (''USER_UPDATED'', Some \<lparr> access_token = ''x.y.z'', user_email = None \<rparr>)]
     (Home_initial True [])
   = (Home_initial True [])
       \<lparr> session := Some \<lparr> access_token = ''a.b.c'', user_email = Some ''u@example.org'' \<rparr> \<rparr>
   \<and> session (authStateChanges
       ([(''SIGNED_IN'', Some \<lparr> access_token = ''a.b.c'', user_email = Some ''u@example.org'' \<rparr>),
         (''TOKEN_REFRESHED'', Some \<lparr> access_token = ''d.e.f'', user_email = None \<rparr>)]
        @ [(''SIGNED_OUT'', None)])
       (Home_initial True [])) = None"
proof -
  let ?S = "\<lparr> access_token = ''a.b.c'', user_email = Some ''u@example.org'' \<rparr>"
  let ?T = "\<lparr> access_token = ''x.y.z'', user_email = None \<rparr>"
  let ?h = "Home_initial True []"
  have 1: "authStateChange ''SIGNED_IN'' (Some ?S) ?h = ?h\<lparr> session := Some ?S \<rparr>"
    using authStateChange_transitions [of True "[]" "''SIGNED_IN''" ?S ?h None "[]"]
    by simp
  have 2: "authStateChange ''USER_UPDATED'' (Some ?T) (?h\<lparr> session := Some ?S \<rparr>)
             = ?h\<lparr> session := Some ?S \<rparr>"
    using authStateChange_transitions
      [of True "[]" "''USER_UPDATED''" ?S "?h\<lparr> session := Some ?S \<rparr>" "Some ?T" "[]"]
    by simp
  have 3: "session (authStateChanges
       ([(''SIGNED_IN'', Some ?S),
         (''TOKEN_REFRESHED'', Some \<lparr> access_token = ''d.e.f'', user_email = None \<rparr>)]
        @ [(''SIGNED_OUT'', None)]) ?h) = None"
    using authStateChange_transitions [of True "[]" "''SIGNED_IN''" ?S ?h None
      "[(''SIGNED_IN'', Some ?S),
        (''TOKEN_REFRESHED'', Some \<lparr> access_token = ''d.e.f'', user_email = None \<rparr>)]"]
    by blast
  from 1 2 3 show ?thesis by simp
qed

text \<open>
  C10. A \<^verbatim>\<open>SIGNED_IN\<close> or \<^verbatim>\<open>TOKEN_REFRESHED\<close> event whose session is \<^verbatim>\<open>null\<close> changes
  nothing: a session that is there stays, and none appears.
\<close>

theorem authStateChange_null_session:
  assumes "event = ''SIGNED_IN'' \<or> event = ''TOKEN_REFRESHED''"
  shows "authStateChange event None h = h"
  using assms by (auto simp add: authStateChange_def)

theorem authStateChange_null_session_witness:
  "authStateChange ''TOKEN_REFRESHED'' None
     ((Home_initial True [])
        \<lparr> session := Some \<lparr> access_token = ''a.b.c'', user_email = None \<rparr> \<rparr>)
   = (Home_initial True [])
        \<lparr> session := Some \<lparr> access_token = ''a.b.c'', user_email = None \<rparr> \<rparr>
   \<and> authStateChange ''SIGNED_IN'' None (Home_initial True []) = Home_initial True []"
  using authStateChange_null_session [of "''TOKEN_REFRESHED''"
      "(Home_initial True [])
        \<lparr> session := Some \<lparr> access_token = ''a.b.c'', user_email = None \<rparr> \<rparr>"]
    authStateChange_null_session [of "''SIGNED_IN''" "Home_initial True []"]
  by simp

section \<open>The client needs both credentials\<close>

text \<open>
  C5. When the URL or the key is missing or empty, the \<^verbatim>\<open>useMemo\<close> callback gives
  no client and sets the error to the fixed message (in the source:
  \<^verbatim>\<open>A valid Supabase Key and URL are required\<close>), without calling \<^verbatim>\<open>createClient\<close>; when
  both are there and \<^verbatim>\<open>createClient\<close> returns a client, that client is the result and
  the error is cleared.
\<close>

theorem supabase_requires_credentials:
  "(falsy (key h) \<or> falsy (url h)
      \<longrightarrow> supabase createClient h
            = (None, h\<lparr> error := Some ''A valid Supabase Key and URL are required'' \<rparr>))
   \<and> (key h = Some k \<and> k \<noteq> [] \<and> url h = Some u \<and> u \<noteq> [] \<and> createClient u k = Inr client
      \<longrightarrow> supabase createClient h = (Some client, h\<lparr> error := None \<rparr>))"
  by (auto simp add: supabase_def falsy_def)

theorem supabase_requires_credentials_witness:
  "supabase (\<lambda>u k. Inr (u, k)) (Home_initial True [(''SB_KEY'', ''anon-key'')])
     = (None, (Home_initial True [(''SB_KEY'', ''anon-key'')])
                \<lparr> error := Some ''A valid Supabase Key and URL are required'' \<rparr>)
   \<and> supabase (\<lambda>u k. Inr (u, k))
       ((Home_initial True [(''SB_KEY'', ''anon-key''), (''SB_URL'', ''https://p.example'')])
          \<lparr> error := Some ''A valid Supabase Key and URL are required'' \<rparr>)
     = (Some (''https://p.example'', ''anon-key''),
        (Home_initial True [(''SB_KEY'', ''anon-key''), (''SB_URL'', ''https://p.example'')])
          \<lparr> error := None \<rparr>)"
proof -
  let ?h1 = "Home_initial True [(''SB_KEY'', ''anon-key'')]"
  let ?h2 = "(Home_initial True [(''SB_KEY'', ''anon-key''), (''SB_URL'', ''https://p.example'')])
          \<lparr> error := Some ''A valid Supabase Key and URL are required'' \<rparr>"
  have f: "falsy (url ?h1)"
    by (simp add: Home_initial_def getCachedItem_def getItem_def falsy_def
        URL_STORAGE_KEY_def)
  have k: "key ?h2 = Some ''anon-key''" and u: "url ?h2 = Some ''https://p.example''"
    by (simp_all add: Home_initial_def getCachedItem_def getItem_def
        URL_STORAGE_KEY_def KEY_STORAGE_KEY_def)
  from f supabase_requires_credentials [of ?h1 "\<lambda>u k. Inr (u, k)"]
  have 1: "supabase (\<lambda>u k. Inr (u, k)) ?h1
     = (None, ?h1\<lparr> error := Some ''A valid Supabase Key and URL are required'' \<rparr>)"
    by blast
  from k u supabase_requires_credentials [of ?h2 "\<lambda>u k. Inr (u, k)"
      "''anon-key''" "''https://p.example''" "(''https://p.example'', ''anon-key'')"]
  have 2: "supabase (\<lambda>u k. Inr (u, k)) ?h2 = (Some (''https://p.example'', ''anon-key''),
        ?h2\<lparr> error := None \<rparr>)"
    by simp
  from 1 2 show ?thesis by simp
qed



section \<open>The claims shown for a session\<close>

lemma anon_key_claims:
  "decodeClaims ''eyJhbGciOiJIUzI1NiJ9.eyJyb2xlIjoiYW5vbiJ9.sig''
     = Inr (JObject [(js ''role'', JString (js ''anon''))])"
  by (simp add: decodeClaims_def anon_key_split index_def ToString_def anon_payload_atob
      anon_payload_JSON)

lemma url_payload_split:
  "string_split CHR ''.'' ''eyJhbGciOiJIUzI1NiJ9.eyJzdWIiOiI_In0.sig''
     = [''eyJhbGciOiJIUzI1NiJ9'', ''eyJzdWIiOiI_In0'', ''sig'']"
  by (simp add: string_split_def)

lemma url_payload_atob: "atob ''eyJzdWIiOiI_In0'' = Inl InvalidCharacterError"
  by (simp add: atob_eval)

lemma url_payload_claims:
  "decodeClaims ''eyJhbGciOiJIUzI1NiJ9.eyJzdWIiOiI_In0.sig'' = Inl InvalidCharacterError"
  by (simp add: decodeClaims_def url_payload_split index_def ToString_def url_payload_atob)

text \<open>
  C6. The claim: for a session whose access token is not of the three-segment shape or
  whose middle segment does not decode or parse, decoding the claims fails and the
  session display leaves the claims out instead of crashing the view. The code does
  not do this. The claims expression of line 133 has neither the length test nor the
  \<^verbatim>\<open>try\<close> that \<^verbatim>\<open>checkForServiceRole\<close> puts around the same three calls. The token
  \<^verbatim>\<open>eyJhbGciOiJIUzI1NiJ9.eyJzdWIiOiI_In0.sig\<close> has three segments and the payload
  \<^verbatim>\<open>{"sub":"?"}\<close> in the base64url alphabet of access tokens: \<^verbatim>\<open>atob\<close> rejects the
  \<^verbatim>\<open>_\<close>, \<^verbatim>\<open>checkForServiceRole\<close> catches that and returns false, and \<^verbatim>\<open>SessionPanel\<close>
  throws it, and with it the render of the page. The token \<^verbatim>\<open>a.b.c\<close> does the same.
  The token \<^verbatim>\<open>x.e30\<close> has two segments, and its claims are decoded and shown.
\<close>

theorem SessionPanel_throws_on_malformed_token:
  "length (string_split CHR ''.'' ''eyJhbGciOiJIUzI1NiJ9.eyJzdWIiOiI_In0.sig'') = 3
   \<and> atob (string_split CHR ''.'' ''eyJhbGciOiJIUzI1NiJ9.eyJzdWIiOiI_In0.sig'' ! 1)
       = Inl InvalidCharacterError
   \<and> checkForServiceRole ''eyJhbGciOiJIUzI1NiJ9.eyJzdWIiOiI_In0.sig'' = Inr False
   \<and> decodeClaims ''eyJhbGciOiJIUzI1NiJ9.eyJzdWIiOiI_In0.sig'' = Inl InvalidCharacterError
   \<and> SessionPanel stringify
        \<lparr> access_token = ''eyJhbGciOiJIUzI1NiJ9.eyJzdWIiOiI_In0.sig'', user_email = email \<rparr>
       = Inl InvalidCharacterError
   \<and> Home_render stringify (Some client)
        (h\<lparr> session := Some \<lparr> access_token = ''eyJhbGciOiJIUzI1NiJ9.eyJzdWIiOiI_In0.sig'',
                                user_email = email \<rparr> \<rparr>)
       = Inl InvalidCharacterError
   \<and> length (string_split CHR ''.'' ''a.b.c'') = 3
   \<and> decodeClaims ''a.b.c'' = Inl InvalidCharacterError
   \<and> Home_render stringify (Some client)
        (h\<lparr> session := Some \<lparr> access_token = ''a.b.c'', user_email = email \<rparr> \<rparr>)
       = Inl InvalidCharacterError
   \<and> length (string_split CHR ''.'' ''x.e30'') = 2
   \<and> decodeClaims ''x.e30'' = Inr (JObject [])
   \<and> SessionPanel stringify \<lparr> access_token = ''x.e30'', user_email = email \<rparr>
       = Inr \<lparr> signed_in_as = email, token_shown = ''x.e30'',
               jwt_data_shown = stringify (JObject []) \<rparr>"
proof -
  let ?u = "''eyJhbGciOiJIUzI1NiJ9.eyJzdWIiOiI_In0.sig''"
  have u1: "length (string_split CHR ''.'' ?u) = 3"
    by (simp add: url_payload_split)
  have u2: "atob (string_split CHR ''.'' ?u ! 1) = Inl InvalidCharacterError"
    by (simp add: url_payload_split url_payload_atob)
  have u3: "checkForServiceRole ?u = Inr False"
    by (simp add: checkForServiceRole_def url_payload_split url_payload_atob try_catch_def)
  have u4: "SessionPanel stringify \<lparr> access_token = ?u, user_email = email \<rparr>
       = Inl InvalidCharacterError"
    by (simp add: SessionPanel_def url_payload_claims)
  have u5: "Home_render stringify (Some client)
        (h\<lparr> session := Some \<lparr> access_token = ?u, user_email = email \<rparr> \<rparr>)
       = Inl InvalidCharacterError"
    by (simp add: Home_render_def u4)
  have s2: "string_split CHR ''.'' ''a.b.c'' = [''a'', ''b'', ''c'']"
    by (simp add: string_split_def)
  have a2: "atob ''b'' = Inl InvalidCharacterError"
    by (simp add: atob_eval)
  have d2: "decodeClaims ''a.b.c'' = Inl InvalidCharacterError"
    by (simp add: decodeClaims_def s2 index_def ToString_def a2)
  have h2: "Home_render stringify (Some client)
        (h\<lparr> session := Some \<lparr> access_token = ''a.b.c'', user_email = email \<rparr> \<rparr>)
       = Inl InvalidCharacterError"
    by (simp add: Home_render_def SessionPanel_def d2)
  have s1: "string_split CHR ''.'' ''x.e30'' = [''x'', ''e30'']"
    by (simp add: string_split_def)
  have a1: \<open>atob ''e30'' = Inr ''{}''\<close>
    by (simp add: atob_eval)
  have j1: \<open>JSON_parse ''{}'' = Inr (JObject [])\<close>
    by (simp add: JSON_eval)
  have d1: "decodeClaims ''x.e30'' = Inr (JObject [])"
    by (simp add: decodeClaims_def s1 index_def ToString_def a1 j1)
  have p1: "SessionPanel stringify \<lparr> access_token = ''x.e30'', user_email = email \<rparr>
       = Inr \<lparr> signed_in_as = email, token_shown = ''x.e30'',
               jwt_data_shown = stringify (JObject []) \<rparr>"
    by (simp add: SessionPanel_def d1)
  from u1 u2 u3 url_payload_claims u4 u5 s2 d2 h2 s1 d1 p1 show ?thesis
    by simp
qed

section \<open>One subscription at a time\<close>

lemma snoc_eq_split:
  "(t @ [a] = t1 @ x # t2) =
   ((t2 = [] \<and> t1 = t \<and> x = a) \<or> (\<exists>t2'. t2 = t2' @ [a] \<and> t = t1 @ x # t2'))"
  by (cases t2 rule: rev_cases) auto

lemma invariant_no_cleanup:
  "subscription_invariant l \<Longrightarrow> cleanup l = None \<Longrightarrow> listeners l = []"
  by (simp add: subscription_invariant_def)

lemma invariant_one_listener:
  "subscription_invariant l \<Longrightarrow> cleanup l = Some i
     \<Longrightarrow> mounted l \<and> (\<exists>c. listeners l = [(i, c)] \<and> last_deps l = Some (Some c))"
  by (simp add: subscription_invariant_def)

lemma invariant_live_bound:
  "subscription_invariant l \<Longrightarrow> i \<in> live l \<Longrightarrow> i < next_subscription l"
  unfolding subscription_invariant_def by blast

lemma invariant_subscribed:
  "subscription_invariant l \<Longrightarrow> (i, c) \<in> set (listeners l) \<Longrightarrow> Subscribe i c \<in> set (trace l)"
  unfolding subscription_invariant_def by blast

lemma invariant_bound:
  "subscription_invariant l \<Longrightarrow> Subscribe i c \<in> set (trace l) \<Longrightarrow> i < next_subscription l"
  unfolding subscription_invariant_def by blast

lemma invariant_cancelled:
  "subscription_invariant l \<Longrightarrow> Subscribe i c \<in> set (trace l) \<Longrightarrow> i \<notin> live l
     \<Longrightarrow> Unsubscribe i \<in> set (trace l)"
  unfolding subscription_invariant_def by blast

lemma invariant_unsubscribed:
  "subscription_invariant l \<Longrightarrow> Unsubscribe i \<in> set (trace l)
     \<Longrightarrow> i \<notin> live l \<and> i < next_subscription l"
  unfolding subscription_invariant_def by blast

lemma invariant_order:
  "subscription_invariant l \<Longrightarrow> trace l = t1 @ Subscribe i c # t2
     \<Longrightarrow> Subscribe j c' \<in> set t1 \<Longrightarrow> Unsubscribe j \<in> set t1"
  unfolding subscription_invariant_def by blast

lemma invariant_quiet:
  "subscription_invariant l \<Longrightarrow> trace l = t1 @ Unsubscribe i # t2
     \<Longrightarrow> Deliver i e \<notin> set t2"
  unfolding subscription_invariant_def by blast

lemma invariant_unmounted:
  "subscription_invariant l \<Longrightarrow> cleanup l = None
     \<Longrightarrow> subscription_invariant (l\<lparr> mounted := b \<rparr>)"
  by (auto simp add: subscription_invariant_def live_def)

lemma invariant_mount: "subscription_invariant (mount h)"
  by (simp add: subscription_invariant_def mount_def live_def)

lemma invariant_deliver_one:
  assumes "subscription_invariant l" and "i \<in> live l"
  shows "subscription_invariant (l\<lparr> state := h, trace := trace l @ [Deliver i e] \<rparr>)"
  using assms
  unfolding subscription_invariant_def live_def
  by (auto simp add: snoc_eq_split split: option.splits)

lemma invariant_deliver:
  assumes "subscription_invariant l" and "set targets \<subseteq> live l"
  shows "subscription_invariant (deliver e s targets l)"
  using assms
proof (induction targets arbitrary: l)
  case Nil
  then show ?case by simp
next
  case (Cons i targets)
  let ?l = "l\<lparr> state := authStateChange e s (state l), trace := trace l @ [Deliver i e] \<rparr>"
  from Cons.prems have "subscription_invariant ?l"
    by (simp add: invariant_deliver_one)
  moreover from Cons.prems have "set targets \<subseteq> live ?l"
    by (simp add: live_def)
  ultimately show ?case
    using Cons.IH [of ?l] by simp
qed

lemma invariant_emit:
  assumes "subscription_invariant l"
  shows "subscription_invariant (emit c e s l)"
  unfolding emit_def
  by (rule invariant_deliver [OF assms]) (auto simp add: live_def)

lemma invariant_run_cleanup:
  assumes "subscription_invariant l"
  shows "subscription_invariant (run_cleanup l) \<and> listeners (run_cleanup l) = []
         \<and> cleanup (run_cleanup l) = None \<and> mounted (run_cleanup l) = mounted l"
  using assms
  unfolding subscription_invariant_def live_def run_cleanup_def unsubscribe_def
  by (auto simp add: snoc_eq_split split: option.splits)

lemma invariant_effect:
  assumes "subscription_invariant l" and "listeners l = []" and "cleanup l = None"
    and "mounted l" and "effect client l = (c, l')"
  shows "subscription_invariant (l'\<lparr> cleanup := c, last_deps := Some client \<rparr>)"
proof (cases client)
  case None
  with assms show ?thesis
    by (auto simp add: subscription_invariant_def live_def effect_def)
next
  case (Some x)
  let ?n = "next_subscription l"
  from assms(5) Some have c: "c = Some ?n"
    and l': "l' = l\<lparr> listeners := [(?n, x)], next_subscription := Suc ?n,
                         trace := trace l @ [Subscribe ?n x] \<rparr>"
    using assms(2) by (auto simp add: effect_def onAuthStateChange_def)
  from assms(2) have nolive: "live l = {}"
    by (simp add: live_def)
  have old: "i < ?n \<and> Unsubscribe i \<in> set (trace l)" if "Subscribe i c \<in> set (trace l)" for i c
    using invariant_bound [OF assms(1) that] invariant_cancelled [OF assms(1) that] nolive
    by simp
  have uns: "i < ?n" if "Unsubscribe i \<in> set (trace l)" for i
    using invariant_unsubscribed [OF assms(1) that] by simp
  note t1 = invariant_order [OF assms(1)]
  note t2 = invariant_quiet [OF assms(1)]
  have 1: "\<forall>i c'. Subscribe i c' \<in> set (trace l @ [Subscribe ?n x]) \<longrightarrow>
            i < Suc ?n \<and> (i = ?n \<or> Unsubscribe i \<in> set (trace l @ [Subscribe ?n x]))"
    using old by (auto simp add: less_SucI)
  have 2: "\<forall>i. Unsubscribe i \<in> set (trace l @ [Subscribe ?n x]) \<longrightarrow> i \<noteq> ?n \<and> i < Suc ?n"
    using uns by (auto simp add: less_SucI)
  have 3: "\<forall>t1 i c' t2. trace l @ [Subscribe ?n x] = t1 @ Subscribe i c' # t2 \<longrightarrow>
            (\<forall>j c''. Subscribe j c'' \<in> set t1 \<longrightarrow> Unsubscribe j \<in> set t1)"
    using old t1 by (auto simp add: snoc_eq_split)
  have 4: "\<forall>t1 i t2 e. trace l @ [Subscribe ?n x] = t1 @ Unsubscribe i # t2 \<longrightarrow>
            Deliver i e \<notin> set t2"
    using t2 by (auto simp add: snoc_eq_split)
  from 1 2 3 4 assms(4) Some show ?thesis
    unfolding subscription_invariant_def live_def c l' by simp
qed

lemma invariant_unmount:
  assumes "subscription_invariant l"
  shows "subscription_invariant (unmount l)"
proof (cases "mounted l")
  case True
  from invariant_run_cleanup [OF assms]
  have "subscription_invariant ((run_cleanup l)\<lparr> mounted := False \<rparr>)"
    by (simp add: invariant_unmounted)
  with True show ?thesis by (simp add: unmount_def)
next
  case False
  with assms show ?thesis by (simp add: unmount_def)
qed

lemma invariant_render:
  assumes "subscription_invariant l"
  shows "subscription_invariant (render stringify client l)"
proof (cases "mounted l")
  case False
  with assms show ?thesis by (simp add: render_def)
next
  case True
  show ?thesis
  proof (cases "Home_render stringify client (state l)")
    case (Inl e)
    with True invariant_unmount [OF assms] show ?thesis by (simp add: render_def)
  next
    case (Inr p)
    show ?thesis
    proof (cases "last_deps l = Some client")
      case same: True
      with True Inr assms show ?thesis by (simp add: render_def)
    next
      case False
      obtain c l' where e: "effect client (run_cleanup l) = (c, l')"
        by (cases "effect client (run_cleanup l)")
      from invariant_run_cleanup [OF assms] True
      have "subscription_invariant (l'\<lparr> cleanup := c, last_deps := Some client \<rparr>)"
        by (intro invariant_effect [OF _ _ _ _ e]) simp_all
      with True Inr False e show ?thesis by (simp add: render_def)
    qed
  qed
qed

lemma invariant_rerender:
  "subscription_invariant l \<Longrightarrow> subscription_invariant (rerender stringify l)"
  by (simp add: rerender_def invariant_render split: option.splits)

lemma invariant_step:
  "subscription_invariant l \<Longrightarrow> subscription_invariant (step stringify x l)"
  by (cases x)
    (simp_all add: invariant_render invariant_unmount invariant_emit invariant_rerender Let_def)

lemma invariant_run:
  "subscription_invariant l \<Longrightarrow> subscription_invariant (run stringify xs l)"
  by (induction xs arbitrary: l) (simp_all add: invariant_step)

text \<open>Steps only add to the trace.\<close>

lemma trace_deliver: "\<exists>t. trace (deliver e s targets l) = trace l @ t"
proof (induction targets arbitrary: l)
  case Nil
  then show ?case by simp
next
  case (Cons i targets)
  from Cons [of "l\<lparr> state := authStateChange e s (state l), trace := trace l @ [Deliver i e] \<rparr>"]
  show ?case by auto
qed

lemma trace_run_cleanup:
  "trace (run_cleanup l) = trace l @ (case cleanup l of None \<Rightarrow> [] | Some i \<Rightarrow> [Unsubscribe i])"
  by (simp add: run_cleanup_def unsubscribe_def split: option.splits)

lemma trace_unmount: "\<exists>t. trace (unmount l) = trace l @ t"
  by (simp add: unmount_def trace_run_cleanup)

lemma trace_render: "\<exists>t. trace (render stringify client l) = trace l @ t"
proof (cases "mounted l \<and> (\<exists>p. Home_render stringify client (state l) = Inr p)
    \<and> last_deps l \<noteq> Some client")
  case True
  then show ?thesis
    by (cases client)
      (auto simp add: render_def effect_def onAuthStateChange_def trace_run_cleanup)
next
  case False
  then show ?thesis
    using trace_unmount [of l]
    by (cases "Home_render stringify client (state l)") (auto simp add: render_def)
qed

lemma trace_rerender: "\<exists>t. trace (rerender stringify l) = trace l @ t"
  by (cases "last_deps l") (simp_all add: rerender_def trace_render)

lemma trace_step: "\<exists>t. trace (step stringify x l) = trace l @ t"
proof (cases x)
  case (Render client)
  then show ?thesis by (simp add: trace_render)
next
  case Unmount
  then show ?thesis by (simp add: trace_unmount)
next
  case (Emit c e s)
  obtain t where t: "trace (emit c e s l) = trace l @ t"
    using trace_deliver [of e s _ l] by (auto simp add: emit_def)
  show ?thesis
  proof (cases "state (emit c e s l) = state l")
    case True
    with Emit t show ?thesis by (simp add: Let_def)
  next
    case False
    obtain t' where "trace (rerender stringify (emit c e s l)) = trace (emit c e s l) @ t'"
      using trace_rerender by blast
    with False Emit t show ?thesis by (simp add: Let_def)
  qed
qed

lemma trace_run: "\<exists>t. trace (run stringify xs l) = trace l @ t"
proof (induction xs arbitrary: l)
  case Nil
  then show ?case by simp
next
  case (Cons x xs)
  from trace_step [of stringify x l] Cons [of "step stringify x l"]
  show ?case by auto
qed

text \<open>Nothing is delivered to a subscription once it is cancelled.\<close>

lemma cancelled_stays_quiet:
  assumes "subscription_invariant l" and "Unsubscribe i \<in> set (trace l)"
  shows "\<exists>t. trace (run stringify xs l) = trace l @ t \<and> (\<forall>e. Deliver i e \<notin> set t)"
proof -
  obtain t where t: "trace (run stringify xs l) = trace l @ t"
    using trace_run by blast
  from assms(2) obtain t1 t2 where s: "trace l = t1 @ Unsubscribe i # t2"
    by (auto simp add: in_set_conv_decomp)
  from t s have "trace (run stringify xs l) = t1 @ Unsubscribe i # (t2 @ t)"
    by simp
  from invariant_quiet [OF invariant_run [OF assms(1)] this]
  have "\<forall>e. Deliver i e \<notin> set t" by simp
  with t show ?thesis by blast
qed

text \<open>What a render with another client, and what unmounting, do to the subscriptions.\<close>

lemma listeners_cleanup:
  assumes "subscription_invariant l"
  shows "map Unsubscribe (map fst (listeners l))
           = (case cleanup l of None \<Rightarrow> [] | Some i \<Rightarrow> [Unsubscribe i])"
proof (cases "cleanup l")
  case None
  with invariant_no_cleanup [OF assms] show ?thesis by simp
next
  case (Some i)
  with invariant_one_listener [OF assms] show ?thesis by auto
qed

lemma render_changed:
  assumes "subscription_invariant l" and "mounted l" and "last_deps l \<noteq> Some client"
    and "Home_render stringify client (state l) = Inr p"
  shows "trace (render stringify client l)
           = trace l @ map Unsubscribe (map fst (listeners l))
               @ (case client of None \<Rightarrow> [] | Some c \<Rightarrow> [Subscribe (next_subscription l) c])"
    and "listeners (render stringify client l)
           = (case client of None \<Rightarrow> [] | Some c \<Rightarrow> [(next_subscription l, c)])"
    and "last_deps (render stringify client l) = Some client"
    and "mounted (render stringify client l)"
proof -
  note c = listeners_cleanup [OF assms(1)]
  from invariant_run_cleanup [OF assms(1)]
  have r: "listeners (run_cleanup l) = []" by simp
  have n: "next_subscription (run_cleanup l) = next_subscription l"
    and m: "mounted (run_cleanup l) = mounted l"
    by (simp_all add: run_cleanup_def unsubscribe_def split: option.splits)
  from assms(2-4) c r n m
  show "trace (render stringify client l)
           = trace l @ map Unsubscribe (map fst (listeners l))
               @ (case client of None \<Rightarrow> [] | Some c \<Rightarrow> [Subscribe (next_subscription l) c])"
    by (cases client)
      (simp_all add: render_def effect_def onAuthStateChange_def trace_run_cleanup)
  from assms(2-4) r n m
  show "listeners (render stringify client l)
           = (case client of None \<Rightarrow> [] | Some c \<Rightarrow> [(next_subscription l, c)])"
    by (cases client) (simp_all add: render_def effect_def onAuthStateChange_def)
  from assms(2-4) show "last_deps (render stringify client l) = Some client"
    by (cases client) (simp_all add: render_def effect_def onAuthStateChange_def)
  from assms(2-4) m show "mounted (render stringify client l)"
    by (cases client) (simp_all add: render_def effect_def onAuthStateChange_def)
qed

lemma unmount_mounted:
  assumes "subscription_invariant l" and "mounted l"
  shows "trace (unmount l) = trace l @ map Unsubscribe (map fst (listeners l))"
    and "listeners (unmount l) = []"
    and "\<not> mounted (unmount l)"
proof -
  from assms(2) listeners_cleanup [OF assms(1)]
  show "trace (unmount l) = trace l @ map Unsubscribe (map fst (listeners l))"
    by (simp add: unmount_def trace_run_cleanup)
  from assms(2) invariant_run_cleanup [OF assms(1)]
  show "listeners (unmount l) = []" by (simp add: unmount_def)
  from assms(2) show "\<not> mounted (unmount l)" by (simp add: unmount_def)
qed

lemma render_throws:
  "mounted l \<Longrightarrow> Home_render stringify client (state l) = Inl e
     \<Longrightarrow> render stringify client l = unmount l"
  by (simp add: render_def)


text \<open>
  C8. Take any state \<open>l\<close> that the mounted page reaches by renders and auth events, and
  let the client handle change (a render with a client other than that of the last
  render) or the page be torn down (it is unmounted, or it throws while rendering,
  be it after an auth event).
  Then the subscriptions that were live are cancelled first and only then is the new
  one made, with the new client and under a number not used before; after a teardown
  none is live; and whatever happens afterwards, no event is delivered to a
  subscription that was live before the change. In the whole trace, every
  subscription made before another one was cancelled before it, and at most one is
  live.
\<close>

theorem subscription_lifecycle:
  assumes "l = run stringify steps (mount h)" and "mounted l"
  shows "(last_deps l \<noteq> Some client \<and> Home_render stringify client (state l) = Inr p
            \<longrightarrow> trace (step stringify (Render client) l)
                  = trace l @ map Unsubscribe (map fst (listeners l))
                      @ (case client of
                           None \<Rightarrow> []
                         | Some c \<Rightarrow> [Subscribe (next_subscription l) c])
              \<and> listeners (step stringify (Render client) l)
                  = (case client of None \<Rightarrow> [] | Some c \<Rightarrow> [(next_subscription l, c)])
              \<and> last_deps (step stringify (Render client) l) = Some client
              \<and> mounted (step stringify (Render client) l)
              \<and> next_subscription l \<notin> fst ` set (listeners l)
              \<and> (\<forall>c. Subscribe (next_subscription l) c \<notin> set (trace l)))
       \<and> (Home_render stringify client (state l) = Inl e
            \<longrightarrow> step stringify (Render client) l = step stringify Unmount l)
       \<and> trace (step stringify Unmount l)
            = trace l @ map Unsubscribe (map fst (listeners l))
       \<and> listeners (step stringify Unmount l) = []
       \<and> \<not> mounted (step stringify Unmount l)
       \<and> ((x = Unmount \<or> (x = Render client \<and> last_deps l \<noteq> Some client)
               \<or> \<not> mounted (step stringify x l))
             \<and> i \<in> fst ` set (listeners l)
            \<longrightarrow> Unsubscribe i \<in> set (trace (step stringify x l))
              \<and> (\<exists>t. trace (run stringify later (step stringify x l))
                        = trace (step stringify x l) @ t
                      \<and> (\<forall>ev. Deliver i ev \<notin> set t)))
       \<and> (trace l = before @ Subscribe j c' # after
            \<longrightarrow> (\<forall>j' c''. Subscribe j' c'' \<in> set before \<longrightarrow> Unsubscribe j' \<in> set before))
       \<and> length (listeners l) \<le> 1"
proof -
  from assms(1) have inv: "subscription_invariant l"
    by (simp add: invariant_run invariant_mount)
  note mounted = assms(2)
  have fresh: "next_subscription l \<notin> fst ` set (listeners l)"
    using invariant_live_bound [OF inv, of "next_subscription l"] by (auto simp add: live_def)
  have unused: "\<forall>c. Subscribe (next_subscription l) c \<notin> set (trace l)"
    using invariant_bound [OF inv, of "next_subscription l"] by auto
  have a: "last_deps l \<noteq> Some client \<and> Home_render stringify client (state l) = Inr p
            \<longrightarrow> trace (step stringify (Render client) l)
                  = trace l @ map Unsubscribe (map fst (listeners l))
                      @ (case client of
                           None \<Rightarrow> []
                         | Some c \<Rightarrow> [Subscribe (next_subscription l) c])
              \<and> listeners (step stringify (Render client) l)
                  = (case client of None \<Rightarrow> [] | Some c \<Rightarrow> [(next_subscription l, c)])
              \<and> last_deps (step stringify (Render client) l) = Some client
              \<and> mounted (step stringify (Render client) l)
              \<and> next_subscription l \<notin> fst ` set (listeners l)
              \<and> (\<forall>c. Subscribe (next_subscription l) c \<notin> set (trace l))"
    using render_changed [OF inv mounted, of client stringify p] fresh unused by simp
  have b: "Home_render stringify client (state l) = Inl e
            \<longrightarrow> step stringify (Render client) l = step stringify Unmount l"
    using render_throws [OF mounted] by simp
  have c: "trace (step stringify Unmount l)
            = trace l @ map Unsubscribe (map fst (listeners l))"
    and d: "listeners (step stringify Unmount l) = []"
    and e: "\<not> mounted (step stringify Unmount l)"
    using unmount_mounted [OF inv mounted] by simp_all
  have f: "(x = Unmount \<or> (x = Render client \<and> last_deps l \<noteq> Some client)
               \<or> \<not> mounted (step stringify x l))
             \<and> i \<in> fst ` set (listeners l)
            \<longrightarrow> Unsubscribe i \<in> set (trace (step stringify x l))
              \<and> (\<exists>t. trace (run stringify later (step stringify x l))
                        = trace (step stringify x l) @ t
                      \<and> (\<forall>ev. Deliver i ev \<notin> set t))"
  proof
    assume h: "(x = Unmount \<or> (x = Render client \<and> last_deps l \<noteq> Some client)
               \<or> \<not> mounted (step stringify x l))
             \<and> i \<in> fst ` set (listeners l)"
    then have i: "Unsubscribe i \<in> set (map Unsubscribe (map fst (listeners l)))"
      by auto
    note inv' = invariant_step [OF inv, of stringify x]
    have u: "Unsubscribe i \<in> set (trace (step stringify x l))"
    proof (cases "mounted (step stringify x l)")
      case False
      from inv' False have "cleanup (step stringify x l) = None"
        by (cases "cleanup (step stringify x l)") (auto dest: invariant_one_listener)
      from invariant_no_cleanup [OF inv' this] have nl: "i \<notin> live (step stringify x l)"
        by (simp add: live_def)
      from h obtain c where "(i, c) \<in> set (listeners l)" by auto
      from invariant_subscribed [OF inv this] trace_step [of stringify x l]
      have "Subscribe i c \<in> set (trace (step stringify x l))" by auto
      from invariant_cancelled [OF inv' this nl] show ?thesis .
    next
      case True
      with h c e have x: "x = Render client" and ch: "last_deps l \<noteq> Some client"
        by auto
      show ?thesis
      proof (cases "Home_render stringify client (state l)")
        case (Inl err)
        with render_throws [OF mounted, of stringify client err] x c i show ?thesis by simp
      next
        case (Inr q)
        from render_changed(1) [OF inv mounted ch Inr] x i show ?thesis by simp
      qed
    qed
    from u cancelled_stays_quiet [OF inv' u]
    show "Unsubscribe i \<in> set (trace (step stringify x l))
              \<and> (\<exists>t. trace (run stringify later (step stringify x l))
                        = trace (step stringify x l) @ t
                      \<and> (\<forall>ev. Deliver i ev \<notin> set t))" by blast
  qed
  have g: "trace l = before @ Subscribe j c' # after
            \<longrightarrow> (\<forall>j' c''. Subscribe j' c'' \<in> set before \<longrightarrow> Unsubscribe j' \<in> set before)"
    using invariant_order [OF inv] by blast
  have k: "length (listeners l) \<le> 1"
  proof (cases "cleanup l")
    case None
    with invariant_no_cleanup [OF inv] show ?thesis by simp
  next
    case (Some n)
    with invariant_one_listener [OF inv] show ?thesis by auto
  qed
  from a b c d e f g k show ?thesis by (intro conjI)
qed


text \<open>
  The scenario of the specification. The first client refreshes the token; the
  credentials change; the first client signs out and nobody hears it; the second
  client's event is heard; the page is unmounted; the second client signs out and
  nobody hears it. And a session whose token \<^verbatim>\<open>atob\<close> rejects: the page is lost and
  the subscription cancelled.
\<close>

theorem subscription_lifecycle_witness:
  "mounted (run (\<lambda>v. ''{}'')
      [Render (Some 7),
       Emit 7 ''TOKEN_REFRESHED''
         (Some \<lparr> access_token = ''eyJhbGciOiJIUzI1NiJ9.eyJyb2xlIjoiYW5vbiJ9.sig'',
                 user_email = None \<rparr>)]
      (mount (Home_initial True [])))
   \<and> trace (run (\<lambda>v. ''{}'')
      [Render (Some 7),
       Emit 7 ''TOKEN_REFRESHED''
         (Some \<lparr> access_token = ''eyJhbGciOiJIUzI1NiJ9.eyJyb2xlIjoiYW5vbiJ9.sig'',
                 user_email = None \<rparr>)]
      (mount (Home_initial True [])))
     = [Subscribe 0 7, Deliver 0 ''TOKEN_REFRESHED'']
   \<and> trace (step (\<lambda>v. ''{}'') (Render (Some 8)) (run (\<lambda>v. ''{}'')
      [Render (Some 7),
       Emit 7 ''TOKEN_REFRESHED''
         (Some \<lparr> access_token = ''eyJhbGciOiJIUzI1NiJ9.eyJyb2xlIjoiYW5vbiJ9.sig'',
                 user_email = None \<rparr>)]
      (mount (Home_initial True []))))
     = [Subscribe 0 7, Deliver 0 ''TOKEN_REFRESHED'', Unsubscribe 0, Subscribe 1 8]
   \<and> listeners (step (\<lambda>v. ''{}'') (Render (Some 8)) (run (\<lambda>v. ''{}'')
      [Render (Some 7),
       Emit 7 ''TOKEN_REFRESHED''
         (Some \<lparr> access_token = ''eyJhbGciOiJIUzI1NiJ9.eyJyb2xlIjoiYW5vbiJ9.sig'',
                 user_email = None \<rparr>)]
      (mount (Home_initial True []))))
     = [(1, 8)]
   \<and> trace (run (\<lambda>v. ''{}'')
        [Emit 7 ''SIGNED_OUT'' None, Emit 8 ''USER_UPDATED'' None, Unmount,
         Emit 8 ''SIGNED_OUT'' None]
        (step (\<lambda>v. ''{}'') (Render (Some 8)) (run (\<lambda>v. ''{}'')
      [Render (Some 7),
       Emit 7 ''TOKEN_REFRESHED''
         (Some \<lparr> access_token = ''eyJhbGciOiJIUzI1NiJ9.eyJyb2xlIjoiYW5vbiJ9.sig'',
                 user_email = None \<rparr>)]
      (mount (Home_initial True [])))))
     = [Subscribe 0 7, Deliver 0 ''TOKEN_REFRESHED'', Unsubscribe 0, Subscribe 1 8]
         @ [Deliver 1 ''USER_UPDATED'', Unsubscribe 1]
   \<and> Deliver 0 ''SIGNED_OUT'' \<notin> set [Deliver 1 ''USER_UPDATED'', Unsubscribe 1]
   \<and> trace (step (\<lambda>v. ''{}'') Unmount (run (\<lambda>v. ''{}'')
      [Render (Some 7),
       Emit 7 ''TOKEN_REFRESHED''
         (Some \<lparr> access_token = ''eyJhbGciOiJIUzI1NiJ9.eyJyb2xlIjoiYW5vbiJ9.sig'',
                 user_email = None \<rparr>)]
      (mount (Home_initial True []))))
     = [Subscribe 0 7, Deliver 0 ''TOKEN_REFRESHED'', Unsubscribe 0]
   \<and> run (\<lambda>v. ''{}'')
        [Render (Some 7),
         Emit 7 ''SIGNED_IN''
           (Some \<lparr> access_token = ''eyJhbGciOiJIUzI1NiJ9.eyJzdWIiOiI_In0.sig'',
                   user_email = None \<rparr>)]
        (mount (Home_initial True []))
     = \<lparr> state = (Home_initial True [])
           \<lparr> session := Some \<lparr> access_token = ''eyJhbGciOiJIUzI1NiJ9.eyJzdWIiOiI_In0.sig'',
                                user_email = None \<rparr> \<rparr>,
         mounted = False, last_deps = Some (Some 7), cleanup = None, listeners = [],
         next_subscription = 1,
         trace = [Subscribe 0 7, Deliver 0 ''SIGNED_IN'', Unsubscribe 0] \<rparr>"
proof -
  let ?f = "\<lambda>v::json. ''{}''"
  let ?good = "\<lparr> access_token = ''eyJhbGciOiJIUzI1NiJ9.eyJyb2xlIjoiYW5vbiJ9.sig'',
                 user_email = None \<rparr>"
  let ?steps = "[Render (Some 7), Emit 7 ''TOKEN_REFRESHED'' (Some ?good)]"
  let ?later = "[Emit 7 ''SIGNED_OUT'' None, Emit 8 ''USER_UPDATED'' None, Unmount,
         Emit 8 ''SIGNED_OUT'' None]"
  note eval = mount_def render_def rerender_def run_cleanup_def effect_def
    onAuthStateChange_def unsubscribe_def unmount_def emit_def authStateChange_def
    Home_render_def SessionPanel_def anon_key_claims url_payload_claims Home_initial_def
    getCachedItem_def getItem_def Let_def
  define l where "l = run ?f ?steps (mount (Home_initial True []))"
  have l: "l = \<lparr> state = (Home_initial True []) \<lparr> session := Some ?good \<rparr>,
         mounted = True, last_deps = Some (Some 7), cleanup = Some 0, listeners = [(0, 7)],
         next_subscription = 1,
         trace = [Subscribe 0 7, Deliver 0 ''TOKEN_REFRESHED''] \<rparr>"
    unfolding l_def by (simp add: eval)
  have m: "mounted l" and t: "trace l = [Subscribe 0 7, Deliver 0 ''TOKEN_REFRESHED'']"
    and d: "last_deps l \<noteq> Some (Some 8)"
    and ls: "listeners l = [(0, 7)]" and n: "next_subscription l = 1"
    unfolding l by simp_all
  have r: "Home_render ?f (Some (8::nat)) (state l)
      = Inr \<lparr> inputs_shown = False, error_shown = None,
              panel_shown = Some (SessionPanelOf
                \<lparr> signed_in_as = None,
                  token_shown = ''eyJhbGciOiJIUzI1NiJ9.eyJyb2xlIjoiYW5vbiJ9.sig'',
                  jwt_data_shown = ''{}'' \<rparr>) \<rparr>"
    unfolding l by (simp add: eval falsy_def)
  note inst = subscription_lifecycle [OF l_def m, of "Some 8" _ _ "Render (Some 8)" 0 "?later"]
  from inst d r
  have "trace (step ?f (Render (Some 8)) l)
      = trace l @ map Unsubscribe (map fst (listeners l))
          @ (case Some 8 of None \<Rightarrow> [] | Some c \<Rightarrow> [Subscribe (next_subscription l) c])"
    and "listeners (step ?f (Render (Some 8)) l)
      = (case Some 8 of None \<Rightarrow> [] | Some c \<Rightarrow> [(next_subscription l, c)])"
    by blast+
  then have a: "trace (step ?f (Render (Some 8)) l)
     = [Subscribe 0 7, Deliver 0 ''TOKEN_REFRESHED'', Unsubscribe 0, Subscribe 1 8]"
    and b: "listeners (step ?f (Render (Some 8)) l) = [(1, 8)]"
    unfolding t ls n by simp_all
  from inst have "trace (step ?f Unmount l) = trace l @ map Unsubscribe (map fst (listeners l))"
    by blast
  then have c: "trace (step ?f Unmount l)
     = [Subscribe 0 7, Deliver 0 ''TOKEN_REFRESHED'', Unsubscribe 0]"
    unfolding t ls by simp
  have "0 \<in> fst ` set (listeners l)"
    unfolding ls by simp
  with inst d obtain q where
    q: "trace (run ?f ?later (step ?f (Render (Some 8)) l))
          = trace (step ?f (Render (Some 8)) l) @ q"
    and quiet: "\<forall>ev. Deliver 0 ev \<notin> set q"
    by blast
  have full: "trace (run ?f ?later (step ?f (Render (Some 8)) l))
     = [Subscribe 0 7, Deliver 0 ''TOKEN_REFRESHED'', Unsubscribe 0, Subscribe 1 8]
         @ [Deliver 1 ''USER_UPDATED'', Unsubscribe 1]"
    unfolding l by (simp add: eval)
  from q full have "q = [Deliver 1 ''USER_UPDATED'', Unsubscribe 1]"
    unfolding a by simp
  with quiet have e: "Deliver 0 ''SIGNED_OUT'' \<notin> set [Deliver 1 ''USER_UPDATED'', Unsubscribe 1]"
    by blast
  have crash: "run ?f
        [Render (Some 7),
         Emit 7 ''SIGNED_IN''
           (Some \<lparr> access_token = ''eyJhbGciOiJIUzI1NiJ9.eyJzdWIiOiI_In0.sig'',
                   user_email = None \<rparr>)]
        (mount (Home_initial True []))
     = \<lparr> state = (Home_initial True [])
           \<lparr> session := Some \<lparr> access_token = ''eyJhbGciOiJIUzI1NiJ9.eyJzdWIiOiI_In0.sig'',
                                user_email = None \<rparr> \<rparr>,
         mounted = False, last_deps = Some (Some 7), cleanup = None, listeners = [],
         next_subscription = 1,
         trace = [Subscribe 0 7, Deliver 0 ''SIGNED_IN'', Unsubscribe 0] \<rparr>"
    by (simp add: eval)
  from m t a b full e c crash show ?thesis
    unfolding l_def by (intro conjI)
qed

end
